theory Spec2Isabelle
  imports Complex_Main
begin

section \<open>The table \<open>dice_roll_requests\<close>\<close>

text \<open>
  The three database-polling variants of \<open>helper_index.js\<close> share one table. A row is
  a record with the columns the queries name. \<open>emoji_type\<close> is a nullable text column
  (\<open>None\<close> is SQL \<open>NULL\<close>, \<open>Some []\<close> the empty string), \<open>roll_value\<close> and
  \<open>processed_at\<close> are nullable, timestamps are natural numbers.
\<close>

datatype req_status = Pending | Completed | Error

record request_row =
  request_id :: nat
  game_id :: nat
  chat_id :: int
  user_id :: int
  emoji_type :: "string option"
  status :: req_status
  roll_value :: "int option"
  requested_at :: nat
  processed_at :: "nat option"

datatype error = DbError | DoubleRelease

text \<open>
  \<open>SELECT ... FROM dice_roll_requests WHERE status = 'pending' ORDER BY requested_at ASC
  LIMIT $1 FOR UPDATE SKIP LOCKED\<close>. \<open>lockedByOthers\<close> holds the request ids whose rows
  another open transaction has locked: \<open>SKIP LOCKED\<close> leaves them out before the limit
  is applied. PostgreSQL rejects a negative \<open>LIMIT\<close>.
\<close>

definition selectable :: "nat set \<Rightarrow> request_row \<Rightarrow> bool" where
  "selectable lockedByOthers r \<longleftrightarrow> status r = Pending \<and> request_id r \<notin> lockedByOthers"

definition selectQuery :: "int \<Rightarrow> nat set \<Rightarrow> request_row list \<Rightarrow> error + request_row list" where
  "selectQuery maxRows lockedByOthers tbl =
     (if maxRows < 0 then Inl DbError
      else Inr (take (nat maxRows) (sort_key requested_at (filter (selectable lockedByOthers) tbl))))"

text \<open>
  \<open>UPDATE dice_roll_requests SET status = $1, roll_value = $2, processed_at = NOW()
  WHERE request_id = $3 AND status = 'pending'\<close>: the new table and \<open>rowCount\<close>.
\<close>

definition updateMatches :: "nat \<Rightarrow> request_row \<Rightarrow> bool" where
  "updateMatches rid r \<longleftrightarrow> request_id r = rid \<and> status r = Pending"

definition updateQuery ::
  "req_status \<Rightarrow> int option \<Rightarrow> nat \<Rightarrow> nat \<Rightarrow> request_row list \<Rightarrow> request_row list \<times> nat" where
  "updateQuery updateStatus rollValue now rid tbl =
     (map (\<lambda>r. if updateMatches rid r
                then r\<lparr>status := updateStatus, roll_value := rollValue, processed_at := Some now\<rparr>
                else r) tbl,
      length (filter (updateMatches rid) tbl))"


section \<open>The environment of one polling cycle\<close>

text \<open>
  Three of the source files poll the table. By their header comments they are the
  \<^emph>\<open>Versatile Animated Emoji Helper Bot (Database Polling)\<close>, which sends
  \<open>request.emoji_type || DICE\<close> with \<open>bot.sendDice\<close>; the \<^emph>\<open>Dice Helper Bot (Database
  Polling + Animated Dice Strategy)\<close>, which calls \<open>bot.sendDice(chat_id)\<close> with no emoji;
  and the \<^emph>\<open>Dice Helper Bot (Database Polling Strategy)\<close>, which rolls with
  \<open>Math.random\<close>. Their cycles differ only where \<open>variant\<close> is inspected below.
\<close>

datatype variant = AnimatedEmoji | AnimatedDice | PlainPoll

datatype query = Begin | Select | Update nat | Commit | Rollback

text \<open>
  What \<open>await bot.sendDice(...)\<close> does: it throws an error, it resolves to a message
  without a \<open>dice\<close> member (or to nothing), or it resolves to a message whose
  \<open>dice.value\<close> is the given integer. The helpers do not inspect that integer.
\<close>

datatype send_result = Throws | NoDice | Dice int

datatype log =
    Found nat | Processing nat | Sending nat | SendOk nat int | NoResult nat | SendError nat
  | Generated nat int | Updated nat | UpdateWarn nat | PollError | RolledBack | RollbackFailed
  | AlreadyShuttingDown | ShuttingDown | PollingStopped | TelegramStopped | TelegramStopError
  | PoolClosed | PoolCloseError | ShutdownComplete | UnhandledRejection

datatype event =
    PoolConnect | Query query | Release | SendDice int "string option" | Console log
  | SetInterval | ClearInterval | StopPolling | PoolEnd | Exit int

text \<open>
  Everything a cycle cannot decide itself is read from the environment: whether
  \<open>pool.connect()\<close> and each \<open>client.query\<close> resolve, what the \<open>sendDice\<close> call made for a
  request does, what \<open>Math.random()\<close> returns for it (a number in \<open>[0, 1)\<close>), the value
  of \<open>NOW()\<close> and the rows locked by other transactions. Request ids are a primary key,
  so the call made for a request is identified by its id.
\<close>

record env =
  MAX_REQUESTS_PER_CYCLE :: int
  connect_ok :: bool
  query_ok :: "query \<Rightarrow> bool"
  sendDice_result :: "nat \<Rightarrow> send_result"
  Math_random :: "nat \<Rightarrow> real"
  NOW :: nat
  lockedByOthers :: "nat set"

text \<open>
  The state a cycle works on: the committed table, the view of the open transaction,
  whether the borrowed client has been released, and the effects so far, oldest first.
\<close>

record world =
  table :: "request_row list"
  txn :: "request_row list"
  clientReleased :: bool
  trace :: "event list"

datatype settled = Resolved | Rejected error

definition emit :: "event \<Rightarrow> world \<Rightarrow> world" where
  "emit e w = w\<lparr>trace := trace w @ [e]\<rparr>"

definition client_query :: "env \<Rightarrow> query \<Rightarrow> world \<Rightarrow> error \<times> world + world" where
  "client_query env q w =
     (if query_ok env q then Inr (emit (Query q) w) else Inl (DbError, emit (Query q) w))"

text \<open>
  \<open>client.release()\<close>: the pool throws when a client is released a second time.
\<close>

definition client_release :: "world \<Rightarrow> error \<times> world + world" where
  "client_release w =
     (if clientReleased w then Inl (DoubleRelease, emit Release w)
      else Inr ((emit Release w)\<lparr>clientReleased := True\<rparr>))"

section \<open>Processing one request\<close>

text \<open>
  The die emoji, as its UTF-8 bytes, and \<open>request.emoji_type || DICE\<close>: of the values
  a text column can hold, \<open>null\<close> and the empty string are falsy.
\<close>

definition DICE :: string where
  "DICE = [CHR 0xF0, CHR 0x9F, CHR 0x8E, CHR 0xB2]"

definition emojiToSend :: "request_row \<Rightarrow> string" where
  "emojiToSend request =
     (case emoji_type request of None \<Rightarrow> DICE | Some e \<Rightarrow> if e = [] then DICE else e)"

text \<open>
  \<open>Math.floor(Math.random() * 6) + 1\<close>, over the reals. (The product of a double below
  1 with 6 rounds to a double below 6, so the range of the result is the same.)
\<close>

definition localRoll :: "real \<Rightarrow> int" where
  "localRoll x = \<lfloor>x * 6\<rfloor> + 1"

text \<open>
  The part of the loop body before the \<open>UPDATE\<close>, for the two animated helpers:
  \<open>rollValue\<close> starts as \<open>null\<close> and \<open>updateStatus\<close> as \<open>'error'\<close>; only a message
  with a \<open>dice\<close> member changes them, to \<open>dice.value\<close> and \<open>'completed'\<close>. The inner
  \<open>catch\<close> logs and goes on. The result is \<open>(updateStatus, rollValue)\<close>.
\<close>

definition sendAndRead ::
  "env \<Rightarrow> request_row \<Rightarrow> string option \<Rightarrow> world \<Rightarrow> (req_status \<times> int option) \<times> world" where
  "sendAndRead env request emoji w =
     (let rid = request_id request;
          w1 = emit (SendDice (chat_id request) emoji) (emit (Console (Sending rid)) w)
      in case sendDice_result env rid of
           Dice x \<Rightarrow> ((Completed, Some x), emit (Console (SendOk rid x)) w1)
         | NoDice \<Rightarrow> ((Error, None), emit (Console (NoResult rid)) w1)
         | Throws \<Rightarrow> ((Error, None), emit (Console (SendError rid)) w1))"

text \<open>
  The plain polling helper rolls locally and always writes \<open>'completed'\<close>.
\<close>

definition determineOutcome ::
  "variant \<Rightarrow> env \<Rightarrow> request_row \<Rightarrow> world \<Rightarrow> (req_status \<times> int option) \<times> world" where
  "determineOutcome v env request w =
     (case v of
        AnimatedEmoji \<Rightarrow> sendAndRead env request (Some (emojiToSend request)) w
      | AnimatedDice \<Rightarrow> sendAndRead env request None w
      | PlainPoll \<Rightarrow>
          (let rollValue = localRoll (Math_random env (request_id request))
           in ((Completed, Some rollValue),
               emit (Console (Generated (request_id request) rollValue)) w)))"

text \<open>
  The \<open>for (const request of result.rows)\<close> loop. A rejected \<open>UPDATE\<close> leaves the loop
  with the exception; \<open>rowCount = 0\<close> only logs a warning.
\<close>

fun processRows :: "variant \<Rightarrow> env \<Rightarrow> request_row list \<Rightarrow> world \<Rightarrow> error \<times> world + world" where
  "processRows v env [] w = Inr w"
| "processRows v env (request # rest) w =
     (let rid = request_id request;
          ((updateStatus, rollValue), w1) =
             determineOutcome v env request (emit (Console (Processing rid)) w)
      in case client_query env (Update rid) w1 of
           Inl ex \<Rightarrow> Inl ex
         | Inr w2 \<Rightarrow>
             (let (tbl, rowCount) = updateQuery updateStatus rollValue (NOW env) rid (txn w2);
                  w3 = w2\<lparr>txn := tbl\<rparr>
              in processRows v env rest
                   (emit (Console (if rowCount > 0 then Updated rid else UpdateWarn rid)) w3)))"

section \<open>One cycle: \<open>checkAndProcessRollRequests\<close>\<close>

text \<open>
  The body of the \<open>try\<close>. \<open>BEGIN\<close> opens the transaction on the committed table,
  \<open>COMMIT\<close> installs its view. With no row found the cycle commits and returns; the
  animated-emoji helper also calls \<open>client.release()\<close> there, before the \<open>return\<close>.
\<close>

definition tryBody :: "variant \<Rightarrow> env \<Rightarrow> world \<Rightarrow> error \<times> world + world" where
  "tryBody v env w =
     (case client_query env Begin w of
        Inl ex \<Rightarrow> Inl ex
      | Inr w1 \<Rightarrow>
         (case client_query env Select (w1\<lparr>txn := table w1\<rparr>) of
            Inl ex \<Rightarrow> Inl ex
          | Inr w2 \<Rightarrow>
             (case selectQuery (MAX_REQUESTS_PER_CYCLE env) (lockedByOthers env) (txn w2) of
                Inl e \<Rightarrow> Inl (e, w2)
              | Inr rows \<Rightarrow>
                 if rows = [] then
                   (case client_query env Commit w2 of
                      Inl ex \<Rightarrow> Inl ex
                    | Inr w3 \<Rightarrow>
                       if v = AnimatedEmoji then client_release (w3\<lparr>table := txn w3\<rparr>)
                       else Inr (w3\<lparr>table := txn w3\<rparr>))
                 else
                   (case processRows v env rows (emit (Console (Found (length rows))) w2) of
                      Inl ex \<Rightarrow> Inl ex
                    | Inr w3 \<Rightarrow>
                       (case client_query env Commit w3 of
                          Inl ex \<Rightarrow> Inl ex
                        | Inr w4 \<Rightarrow> Inr (w4\<lparr>table := txn w4\<rparr>))))))"

text \<open>
  The \<open>catch\<close> block when \<open>client\<close> is set: log, try \<open>ROLLBACK\<close>, log how it went.
\<close>

definition catchBlock :: "env \<Rightarrow> world \<Rightarrow> world" where
  "catchBlock env w =
     (case client_query env Rollback (emit (Console PollError) w) of
        Inr w1 \<Rightarrow> emit (Console RolledBack) (w1\<lparr>txn := table w1\<rparr>)
      | Inl (e, w1) \<Rightarrow> emit (Console RollbackFailed) w1)"

text \<open>
  The whole function. When \<open>pool.connect()\<close> rejects, \<open>client\<close> is still \<open>null\<close>: the
  \<open>catch\<close> only logs and the \<open>finally\<close> does nothing. Otherwise the \<open>finally\<close> block
  calls \<open>client.release()\<close>, and what that call throws rejects the function's promise.
\<close>

definition checkAndProcessRollRequests :: "variant \<Rightarrow> env \<Rightarrow> world \<Rightarrow> settled \<times> world" where
  "checkAndProcessRollRequests v env w =
     (if \<not> connect_ok env then (Resolved, emit (Console PollError) w)
      else
        let w0 = (emit PoolConnect w)\<lparr>clientReleased := False\<rparr>;
            w1 = (case tryBody v env w0 of Inr w' \<Rightarrow> w' | Inl (e, w') \<Rightarrow> catchBlock env w')
        in case client_release w1 of
             Inr w2 \<Rightarrow> (Resolved, w2)
           | Inl (e, w2) \<Rightarrow> (Rejected e, w2))"


section \<open>The process: timer, start and shutdown\<close>

text \<open>
  The module-level state: the timer handle (\<open>pollingIntervalId\<close> in two of the files),
  whether that interval is still armed, the shutdown flag, \<open>bot.isPolling()\<close>, whether
  the pool has been ended, the exit code once \<open>process.exit\<close> has run, and the number of
  calls of \<open>checkAndProcessRollRequests\<close> whose promise has not settled yet.
\<close>

record process =
  dbPollingIntervalId :: "nat option"
  intervalArmed :: bool
  isShuttingDownHelper :: bool
  botPolling :: bool
  poolEnded :: bool
  inFlight :: nat
  exitCode :: "int option"
  ptrace :: "event list"

definition pemit :: "event \<Rightarrow> process \<Rightarrow> process" where
  "pemit e p = p\<lparr>ptrace := ptrace p @ [e]\<rparr>"

definition initialProcess :: process where
  "initialProcess =
     \<lparr>dbPollingIntervalId = None, intervalArmed = False, isShuttingDownHelper = False,
      botPolling = True, poolEnded = False, inFlight = 0, exitCode = None, ptrace = []\<rparr>"

text \<open>
  \<open>startHelperBot\<close>: after the database round trip and \<open>bot.getMe()\<close> it arms the
  interval with \<open>setInterval(checkAndProcessRollRequests, POLLING_INTERVAL_MS)\<close>; when
  either check throws it ends the pool and exits with code 1.
\<close>

definition startHelperBot :: "bool \<Rightarrow> bool \<Rightarrow> process \<Rightarrow> process" where
  "startHelperBot db_ok getMe_ok p =
     (if db_ok \<and> getMe_ok
      then pemit SetInterval (p\<lparr>dbPollingIntervalId := Some 1, intervalArmed := True\<rparr>)
      else pemit (Exit 1) (pemit PoolEnd (p\<lparr>poolEnded := True, exitCode := Some 1\<rparr>)))"

text \<open>
  The interval fires: Node calls \<open>checkAndProcessRollRequests\<close>, an async function, and
  does not wait for its promise. The callback reads no flag, so the call is made
  whenever the interval is armed and the process has not exited.
\<close>

definition timerTick :: "process \<Rightarrow> process" where
  "timerTick p =
     (if intervalArmed p \<and> exitCode p = None then p\<lparr>inFlight := inFlight p + 1\<rparr> else p)"

text \<open>
  The promise of one call settles. A rejection reaches the \<open>unhandledRejection\<close>
  handler, which only logs.
\<close>

definition cycleSettled :: "settled \<Rightarrow> process \<Rightarrow> process" where
  "cycleSettled r p =
     (let p1 = p\<lparr>inFlight := inFlight p - 1\<rparr>
      in case r of Resolved \<Rightarrow> p1 | Rejected e \<Rightarrow> pemit (Console UnhandledRejection) p1)"

text \<open>
  The common part of both shutdown functions after the flag is set; they differ only
  in where \<open>polling stopped\<close> is logged. \<open>stop_ok\<close> and \<open>end_ok\<close> say whether
  \<open>bot.stopPolling\<close> and \<open>pool.end\<close> resolve; either exception is caught and logged.
\<close>

definition stopTelegram :: "bool \<Rightarrow> process \<Rightarrow> process" where
  "stopTelegram stop_ok p =
     (if botPolling p then
        (if stop_ok then pemit (Console TelegramStopped) ((pemit StopPolling p)\<lparr>botPolling := False\<rparr>)
         else pemit (Console TelegramStopError) (pemit StopPolling p))
      else p)"

definition closePool :: "bool \<Rightarrow> process \<Rightarrow> process" where
  "closePool end_ok p =
     (if end_ok then pemit (Console PoolClosed) ((pemit PoolEnd p)\<lparr>poolEnded := True\<rparr>)
      else pemit (Console PoolCloseError) (pemit PoolEnd p))"

definition process_exit :: "int \<Rightarrow> process \<Rightarrow> process" where
  "process_exit code p = pemit (Exit code) (p\<lparr>exitCode := Some code\<rparr>)"

definition clearInterval :: "process \<Rightarrow> process" where
  "clearInterval p = pemit ClearInterval (p\<lparr>intervalArmed := False\<rparr>)"

text \<open>\<open>shutdownHelper(signal)\<close> of the animated-emoji helper.\<close>

definition shutdownHelper :: "bool \<Rightarrow> bool \<Rightarrow> process \<Rightarrow> process" where
  "shutdownHelper stop_ok end_ok p =
     (if isShuttingDownHelper p then pemit (Console AlreadyShuttingDown) p
      else
        let p1 = pemit (Console ShuttingDown) (p\<lparr>isShuttingDownHelper := True\<rparr>);
            p2 = (if dbPollingIntervalId p1 \<noteq> None then clearInterval p1 else p1);
            p3 = pemit (Console PollingStopped) p2;
            p4 = stopTelegram stop_ok p3;
            p5 = closePool end_ok p4
        in process_exit 0 (pemit (Console ShutdownComplete) p5))"

text \<open>\<open>shutdown(signal)\<close> of the animated-dice and plain polling helpers.\<close>

definition shutdown :: "bool \<Rightarrow> bool \<Rightarrow> process \<Rightarrow> process" where
  "shutdown stop_ok end_ok p =
     (if isShuttingDownHelper p then pemit (Console AlreadyShuttingDown) p
      else
        let p1 = pemit (Console ShuttingDown) (p\<lparr>isShuttingDownHelper := True\<rparr>);
            p2 = (if dbPollingIntervalId p1 \<noteq> None
                  then pemit (Console PollingStopped) (clearInterval p1) else p1);
            p3 = stopTelegram stop_ok p2;
            p4 = closePool end_ok p3
        in process_exit 0 (pemit (Console ShutdownComplete) p4))"


section \<open>Notions used in the statements\<close>

text \<open>
  The pair \<open>(updateStatus, rollValue)\<close> that \<open>determineOutcome\<close> reaches for the request
  with a given id (lemma \<open>determineOutcome_fst\<close>).
\<close>

definition outcome :: "variant \<Rightarrow> env \<Rightarrow> nat \<Rightarrow> req_status \<times> int option" where
  "outcome v env rid =
     (if v = PlainPoll then (Completed, Some (localRoll (Math_random env rid)))
      else case sendDice_result env rid of
             Dice x \<Rightarrow> (Completed, Some x)
           | NoDice \<Rightarrow> (Error, None)
           | Throws \<Rightarrow> (Error, None))"

text \<open>
  What the \<open>UPDATE\<close>s of a batch make of a row: a pending row whose id is in the batch
  gets its outcome and the time stamp, every other row stays as it is.
\<close>

definition settle :: "variant \<Rightarrow> env \<Rightarrow> nat set \<Rightarrow> request_row \<Rightarrow> request_row" where
  "settle v env ids r =
     (if status r = Pending \<and> request_id r \<in> ids
      then r\<lparr>status := fst (outcome v env (request_id r)),
              roll_value := snd (outcome v env (request_id r)),
              processed_at := Some (NOW env)\<rparr>
      else r)"

text \<open>The events the loop can add to the trace.\<close>

definition loopEvent :: "event \<Rightarrow> bool" where
  "loopEvent e \<longleftrightarrow> (case e of SendDice c m \<Rightarrow> True | Console l \<Rightarrow> True
                     | Query q \<Rightarrow> (case q of Update rid \<Rightarrow> True | _ \<Rightarrow> False) | _ \<Rightarrow> False)"

text \<open>The state carried by a result, thrown or not.\<close>

fun thrownOrDone :: "error \<times> world + world \<Rightarrow> world" where
  "thrownOrDone (Inl (e, w)) = w"
| "thrownOrDone (Inr w) = w"

text \<open>The state after the send of one request, and after its \<open>UPDATE\<close> and log line.\<close>

definition afterSend :: "variant \<Rightarrow> env \<Rightarrow> request_row \<Rightarrow> world \<Rightarrow> world" where
  "afterSend v env request w =
     snd (determineOutcome v env request (emit (Console (Processing (request_id request))) w))"

definition afterRow :: "variant \<Rightarrow> env \<Rightarrow> request_row \<Rightarrow> world \<Rightarrow> world" where
  "afterRow v env request w =
     (let rid = request_id request;
          w2 = emit (Query (Update rid)) (afterSend v env request w);
          upd = updateQuery (fst (outcome v env rid)) (snd (outcome v env rid)) (NOW env) rid (txn w2)
      in emit (Console (if snd upd > 0 then Updated rid else UpdateWarn rid)) (w2\<lparr>txn := fst upd\<rparr>))"

text \<open>How a call settles, the state it leaves, and the committed table afterwards.\<close>

definition cycleResult :: "variant \<Rightarrow> env \<Rightarrow> world \<Rightarrow> settled" where
  "cycleResult v env w = fst (checkAndProcessRollRequests v env w)"

definition cycleWorld :: "variant \<Rightarrow> env \<Rightarrow> world \<Rightarrow> world" where
  "cycleWorld v env w = snd (checkAndProcessRollRequests v env w)"

definition tableAfter :: "variant \<Rightarrow> env \<Rightarrow> world \<Rightarrow> request_row list" where
  "tableAfter v env w = table (cycleWorld v env w)"

text \<open>
  Example data: the slot machine emoji, rows, a table, an environment where nothing
  fails, an idle state.
\<close>

definition SLOT :: string where
  "SLOT = [CHR 0xF0, CHR 0x9F, CHR 0x8E, CHR 0xB0]"

definition pendingRow :: "nat \<Rightarrow> nat \<Rightarrow> string option \<Rightarrow> request_row" where
  "pendingRow rid t emoji =
     \<lparr>request_id = rid, game_id = 1, chat_id = 100 + int rid, user_id = 5, emoji_type = emoji,
      status = Pending, roll_value = None, requested_at = t, processed_at = None\<rparr>"

definition completedRow :: "nat \<Rightarrow> nat \<Rightarrow> int \<Rightarrow> request_row" where
  "completedRow rid t x =
     \<lparr>request_id = rid, game_id = 1, chat_id = 100 + int rid, user_id = 5, emoji_type = None,
      status = Completed, roll_value = Some x, requested_at = t, processed_at = Some (t + 1)\<rparr>"

definition exampleTable :: "request_row list" where
  "exampleTable =
     [pendingRow 7 30 None, pendingRow 8 10 (Some []), completedRow 9 5 3,
      pendingRow 10 20 (Some SLOT)]"

definition quietEnv :: env where
  "quietEnv =
     \<lparr>MAX_REQUESTS_PER_CYCLE = 5, connect_ok = True, query_ok = (\<lambda>q. True),
      sendDice_result = (\<lambda>rid. Dice 4), Math_random = (\<lambda>rid. 1 / 2), NOW = 1000,
      lockedByOthers = {}\<rparr>"

definition idleWorld :: "request_row list \<Rightarrow> world" where
  "idleWorld tbl = \<lparr>table = tbl, txn = [], clientReleased = False, trace = []\<rparr>"

text \<open>
  The \<open>sendDice\<close> calls in a trace, as (chat id, emoji argument), and the calls a
  variant makes for a list of requests: the animated-emoji helper passes
  \<open>emojiToSend\<close>, the animated-dice helper passes no emoji, the plain one never calls.
\<close>

fun sendsOf :: "event list \<Rightarrow> (int \<times> string option) list" where
  "sendsOf [] = []"
| "sendsOf (SendDice c e # es) = (c, e) # sendsOf es"
| "sendsOf (x # es) = sendsOf es"

definition callsFor :: "variant \<Rightarrow> request_row list \<Rightarrow> (int \<times> string option) list" where
  "callsFor v rows =
     (case v of
        AnimatedEmoji \<Rightarrow> map (\<lambda>r. (chat_id r, Some (emojiToSend r))) rows
      | AnimatedDice \<Rightarrow> map (\<lambda>r. (chat_id r, None)) rows
      | PlainPoll \<Rightarrow> [])"

text \<open>The rows the claim query of a cycle returns (none when the query is rejected).\<close>

definition claimed :: "env \<Rightarrow> request_row list \<Rightarrow> request_row list" where
  "claimed env tbl =
     (case selectQuery (MAX_REQUESTS_PER_CYCLE env) (lockedByOthers env) tbl of
        Inr rows \<Rightarrow> rows | Inl e \<Rightarrow> [])"

text \<open>
  More example environments: the channel reports 64 (the slot machine's top value);
  the channel throws for request 8 and returns no dice for request 10; the \<open>UPDATE\<close>
  of request 10 is rejected.
\<close>

definition slotEnv :: env where
  "slotEnv = quietEnv\<lparr>sendDice_result := (\<lambda>rid. Dice 64)\<rparr>"

definition flakyEnv :: env where
  "flakyEnv = quietEnv\<lparr>sendDice_result :=
     (\<lambda>rid. if rid = 8 then Throws else if rid = 10 then NoDice else Dice 3)\<rparr>"

definition brokenUpdateEnv :: env where
  "brokenUpdateEnv = quietEnv\<lparr>query_ok := (\<lambda>q. q \<noteq> Update 10)\<rparr>"

text \<open>
  The effects in a process trace other than console output, and two example states:
  the process after a successful start with one call of the cycle still running, and a
  state of a cycle whose transaction sees request 9 already completed.
\<close>

fun actionsOf :: "event list \<Rightarrow> event list" where
  "actionsOf [] = []"
| "actionsOf (Console l # es) = actionsOf es"
| "actionsOf (e # es) = e # actionsOf es"

definition oneCycleRunning :: process where
  "oneCycleRunning = timerTick (startHelperBot True True initialProcess)"

definition midCycleWorld :: world where
  "midCycleWorld = \<lparr>table = exampleTable, txn = exampleTable, clientReleased = False, trace = []\<rparr>"

text \<open>
  The path on which the animated-emoji helper releases inside the \<open>try\<close>: the three
  queries are answered and no row is claimed.
\<close>

definition emptyBatchCommitted :: "env \<Rightarrow> request_row list \<Rightarrow> bool" where
  "emptyBatchCommitted env tbl \<longleftrightarrow>
     query_ok env Begin \<and> query_ok env Select \<and> query_ok env Commit
     \<and> selectQuery (MAX_REQUESTS_PER_CYCLE env) (lockedByOthers env) tbl = Inr []"

section \<open>The claim query\<close>

lemma selectQuery_rows:
  "0 \<le> n \<Longrightarrow> selectQuery n locked tbl =
     Inr (take (nat n) (sort_key requested_at (filter (selectable locked) tbl)))"
  by (simp add: selectQuery_def)

text \<open>
  C2. A claim with limit \<open>n\<close> returns at most \<open>n\<close> rows of the table, each pending
  when selected, oldest \<open>requested_at\<close> first; rows locked by another transaction are
  left out, and the query answers with the unlocked ones instead of waiting: it returns
  \<open>n\<close> rows whenever that many unlocked pending rows exist.
\<close>

theorem claim_batch_bounded_pending_oldest_first:
  assumes "0 \<le> n"
  shows "\<exists>rows. selectQuery n locked tbl = Inr rows
           \<and> int (length rows) \<le> n
           \<and> length rows = min (nat n) (length (filter (selectable locked) tbl))
           \<and> (\<forall>r \<in> set rows. r \<in> set tbl \<and> status r = Pending \<and> request_id r \<notin> locked)
           \<and> sorted (map requested_at rows)"
proof -
  let ?elig = "sort_key requested_at (filter (selectable locked) tbl)"
  let ?rows = "take (nat n) ?elig"
  have sel: "selectQuery n locked tbl = Inr ?rows"
    using assms by (rule selectQuery_rows)
  have len: "length ?rows = min (nat n) (length (filter (selectable locked) tbl))"
    by (simp add: min.commute)
  have bound: "int (length ?rows) \<le> n"
    using assms by simp
  have mem: "\<forall>r \<in> set ?rows. r \<in> set tbl \<and> status r = Pending \<and> request_id r \<notin> locked"
  proof
    fix r assume "r \<in> set ?rows"
    then have "r \<in> set ?elig" by (rule in_set_takeD)
    then show "r \<in> set tbl \<and> status r = Pending \<and> request_id r \<notin> locked"
      by (simp add: selectable_def)
  qed
  have srt: "sorted (map requested_at ?rows)"
    by (simp flip: take_map)
  from sel bound len mem srt show ?thesis by blast
qed

theorem claim_batch_witness:
  "selectQuery 2 {7} exampleTable = Inr [pendingRow 8 10 (Some []), pendingRow 10 20 (Some SLOT)]
   \<and> (\<exists>rows. selectQuery 2 {7} exampleTable = Inr rows
           \<and> int (length rows) \<le> 2
           \<and> length rows = min (nat 2) (length (filter (selectable {7}) exampleTable))
           \<and> (\<forall>r \<in> set rows. r \<in> set exampleTable \<and> status r = Pending \<and> request_id r \<notin> {7})
           \<and> sorted (map requested_at rows))"
proof -
  have "selectQuery 2 {7} exampleTable = Inr [pendingRow 8 10 (Some []), pendingRow 10 20 (Some SLOT)]"
    by (simp add: selectQuery_def exampleTable_def selectable_def pendingRow_def completedRow_def)
  moreover have "(0::int) \<le> 2" by simp
  note claim_batch_bounded_pending_oldest_first [OF this, of "{7}" exampleTable]
  ultimately show ?thesis by blast
qed

section \<open>The loop over the claimed rows\<close>

lemma emit_simps [simp]:
  "table (emit e w) = table w" "txn (emit e w) = txn w"
  "clientReleased (emit e w) = clientReleased w" "trace (emit e w) = trace w @ [e]"
  by (simp_all add: emit_def)

lemma determineOutcome_fst: "fst (determineOutcome v env r w) = outcome v env (request_id r)"
  by (cases v) (simp_all add: determineOutcome_def sendAndRead_def outcome_def Let_def
      split: send_result.splits)

lemma determineOutcome_frame:
  "table (snd (determineOutcome v env r w)) = table w"
  "txn (snd (determineOutcome v env r w)) = txn w"
  "clientReleased (snd (determineOutcome v env r w)) = clientReleased w"
  by (cases v; simp add: determineOutcome_def sendAndRead_def Let_def split: send_result.splits)+

lemma determineOutcome_trace:
  "\<exists>evs. trace (snd (determineOutcome v env r w)) = trace w @ evs \<and> list_all loopEvent evs"
  by (cases v) (simp_all add: determineOutcome_def sendAndRead_def Let_def loopEvent_def
      split: send_result.splits)

lemma outcome_not_pending: "fst (outcome v env rid) \<noteq> Pending"
  by (simp add: outcome_def split: send_result.splits)

lemma settle_update:
  assumes "outcome v env rid = (st, rv)"
  shows "settle v env ids
     (if updateMatches rid r
      then r\<lparr>status := st, roll_value := rv, processed_at := Some (NOW env)\<rparr>
      else r) = settle v env (insert rid ids) r"
  using assms outcome_not_pending [of v env rid]
  by (auto simp: settle_def updateMatches_def)

lemma processRows_ok:
  "(\<forall>r \<in> set rows. query_ok env (Update (request_id r))) \<Longrightarrow>
   \<exists>w'. processRows v env rows w = Inr w'
       \<and> txn w' = map (settle v env (request_id ` set rows)) (txn w)
       \<and> table w' = table w \<and> clientReleased w' = clientReleased w"
proof (induction rows arbitrary: w)
  case Nil
  have "map (settle v env {}) (txn w) = txn w"
    by (simp add: settle_def map_idI)
  then show ?case by simp
next
  case (Cons request rest)
  let ?rid = "request_id request"
  obtain st rv w1 where d: "determineOutcome v env request (emit (Console (Processing ?rid)) w) = ((st, rv), w1)"
    by (metis prod.exhaust)
  have o: "outcome v env ?rid = (st, rv)"
    using determineOutcome_fst [of v env request "emit (Console (Processing ?rid)) w"] d by simp
  have f: "table w1 = table w" "txn w1 = txn w" "clientReleased w1 = clientReleased w"
    using determineOutcome_frame [of v env request "emit (Console (Processing ?rid)) w"] d by simp_all
  let ?tbl = "fst (updateQuery st rv (NOW env) ?rid (txn w))"
  let ?n = "snd (updateQuery st rv (NOW env) ?rid (txn w))"
  let ?w4 = "emit (Console (if ?n > 0 then Updated ?rid else UpdateWarn ?rid)) ((emit (Query (Update ?rid)) w1)\<lparr>txn := ?tbl\<rparr>)"
  have step: "processRows v env (request # rest) w = processRows v env rest ?w4"
    using Cons.prems d f by (simp add: client_query_def Let_def split_beta)
  from Cons.prems have "\<forall>r \<in> set rest. query_ok env (Update (request_id r))" by simp
  from Cons.IH [OF this, of ?w4] obtain w' where
    w': "processRows v env rest ?w4 = Inr w'"
        "txn w' = map (settle v env (request_id ` set rest)) (txn ?w4)"
        "table w' = table ?w4" "clientReleased w' = clientReleased ?w4"
    by blast
  have "txn ?w4 = ?tbl" by simp
  moreover have "map (settle v env (request_id ` set rest)) ?tbl
      = map (settle v env (request_id ` set (request # rest))) (txn w)"
    using settle_update [OF o] by (simp add: updateQuery_def)
  ultimately show ?case using step w' f by simp
qed

lemma processRows_step:
  "processRows v env (request # rest) w =
     (if query_ok env (Update (request_id request))
      then processRows v env rest (afterRow v env request w)
      else Inl (DbError, emit (Query (Update (request_id request))) (afterSend v env request w)))"
proof -
  let ?rid = "request_id request"
  obtain st rv w1 where d: "determineOutcome v env request (emit (Console (Processing ?rid)) w) = ((st, rv), w1)"
    by (metis prod.exhaust)
  have o: "outcome v env ?rid = (st, rv)"
    using determineOutcome_fst [of v env request "emit (Console (Processing ?rid)) w"] d by simp
  show ?thesis
    using d o by (simp add: client_query_def afterRow_def afterSend_def Let_def split_beta)
qed

lemma afterSend_frame [simp]:
  "table (afterSend v env r w) = table w" "txn (afterSend v env r w) = txn w"
  "clientReleased (afterSend v env r w) = clientReleased w"
  by (simp_all add: afterSend_def determineOutcome_frame)

lemma afterRow_frame [simp]:
  "table (afterRow v env r w) = table w"
  "clientReleased (afterRow v env r w) = clientReleased w"
  by (simp_all add: afterRow_def Let_def)

lemma afterSend_trace:
  "\<exists>evs. trace (afterSend v env r w) = trace w @ evs \<and> list_all loopEvent evs"
proof -
  obtain evs where "trace (afterSend v env r w) = (trace w @ [Console (Processing (request_id r))]) @ evs"
      "list_all loopEvent evs"
    using determineOutcome_trace [of v env r "emit (Console (Processing (request_id r))) w"]
    by (auto simp: afterSend_def)
  then have "trace (afterSend v env r w) = trace w @ (Console (Processing (request_id r)) # evs)
      \<and> list_all loopEvent (Console (Processing (request_id r)) # evs)"
    by (simp add: loopEvent_def)
  then show ?thesis by blast
qed

lemma afterRow_trace:
  "\<exists>evs. trace (afterRow v env r w) = trace w @ evs \<and> list_all loopEvent evs"
proof -
  obtain evs where e: "trace (afterSend v env r w) = trace w @ evs" "list_all loopEvent evs"
    using afterSend_trace by blast
  let ?c = "Console (if snd (updateQuery (fst (outcome v env (request_id r))) (snd (outcome v env (request_id r)))
      (NOW env) (request_id r) (txn w)) > 0 then Updated (request_id r) else UpdateWarn (request_id r))"
  have "trace (afterRow v env r w) = trace w @ (evs @ [Query (Update (request_id r)), ?c])"
    using e by (simp add: afterRow_def Let_def)
  moreover have "list_all loopEvent (evs @ [Query (Update (request_id r)), ?c])"
    using e by (simp add: loopEvent_def)
  ultimately show ?thesis by blast
qed

lemma processRows_frame:
  "table (thrownOrDone (processRows v env rows w)) = table w
   \<and> clientReleased (thrownOrDone (processRows v env rows w)) = clientReleased w"
  by (induction rows arbitrary: w) (simp_all add: processRows_step del: processRows.simps(2))

lemma processRows_trace:
  "\<exists>evs. trace (thrownOrDone (processRows v env rows w)) = trace w @ evs \<and> list_all loopEvent evs"
proof (induction rows arbitrary: w)
  case Nil
  then show ?case by simp
next
  case (Cons request rest)
  show ?case
  proof (cases "query_ok env (Update (request_id request))")
    case True
    obtain e1 where e1: "trace (afterRow v env request w) = trace w @ e1" "list_all loopEvent e1"
      using afterRow_trace by blast
    obtain e2 where e2: "trace (thrownOrDone (processRows v env rest (afterRow v env request w)))
        = trace (afterRow v env request w) @ e2" "list_all loopEvent e2"
      using Cons.IH by blast
    have "trace (thrownOrDone (processRows v env (request # rest) w)) = trace w @ (e1 @ e2)
        \<and> list_all loopEvent (e1 @ e2)"
      using True e1 e2 by (simp add: processRows_step del: processRows.simps(2))
    then show ?thesis by blast
  next
    case False
    obtain e1 where e1: "trace (afterSend v env request w) = trace w @ e1" "list_all loopEvent e1"
      using afterSend_trace by blast
    have "trace (thrownOrDone (processRows v env (request # rest) w))
          = trace w @ (e1 @ [Query (Update (request_id request))])
        \<and> list_all loopEvent (e1 @ [Query (Update (request_id request))])"
      using False e1 by (simp add: processRows_step loopEvent_def del: processRows.simps(2))
    then show ?thesis by blast
  qed
qed

lemma processRows_fails:
  "\<exists>r \<in> set rows. \<not> query_ok env (Update (request_id r)) \<Longrightarrow>
   \<exists>w'. processRows v env rows w = Inl (DbError, w')"
  by (induction rows arbitrary: w) (auto simp: processRows_step simp del: processRows.simps(2))

lemma processRows_Inr_all_ok:
  assumes "processRows v env rows w = Inr w'"
  shows "\<forall>r \<in> set rows. query_ok env (Update (request_id r))"
proof (rule ccontr)
  assume "\<not> (\<forall>r \<in> set rows. query_ok env (Update (request_id r)))"
  then have "\<exists>r \<in> set rows. \<not> query_ok env (Update (request_id r))" by simp
  from processRows_fails [OF this, of v w] assms show False by simp
qed

lemma processRows_InrD:
  assumes "processRows v env rows w = Inr w'"
  shows "txn w' = map (settle v env (request_id ` set rows)) (txn w)"
    and "table w' = table w" and "clientReleased w' = clientReleased w"
    and "\<exists>evs. trace w' = trace w @ evs \<and> list_all loopEvent evs"
  using processRows_ok [OF processRows_Inr_all_ok [OF assms], of v w] assms
    processRows_trace [of v env rows w]
  by auto

lemma processRows_InlD:
  assumes "processRows v env rows w = Inl (e, w')"
  shows "table w' = table w" and "clientReleased w' = clientReleased w"
    and "\<exists>evs. trace w' = trace w @ evs \<and> list_all loopEvent evs"
  using assms processRows_frame [of v env rows w] processRows_trace [of v env rows w]
  by auto

lemma settle_empty [simp]: "map (settle v env {}) tbl = tbl"
  by (simp add: settle_def map_idI)

lemma tryBody_table:
  "case tryBody v env w of
     Inl (e, w') \<Rightarrow> table w' = table w
   | Inr w' \<Rightarrow> \<exists>batch.
        selectQuery (MAX_REQUESTS_PER_CYCLE env) (lockedByOthers env) (table w) = Inr batch
        \<and> table w' = map (settle v env (request_id ` set batch)) (table w)"
  unfolding tryBody_def client_query_def client_release_def
  by (auto split: sum.splits if_splits prod.splits dest: processRows_InrD(1,2) processRows_InlD(1))

lemma catchBlock_table [simp]: "table (catchBlock env w) = table w"
  by (simp add: catchBlock_def client_query_def split: sum.splits prod.splits)

lemma client_release_table [simp]: "table (thrownOrDone (client_release w)) = table w"
  by (simp add: client_release_def)

lemma snd_settle_case:
  "snd (case x of Inr w2 \<Rightarrow> (Resolved, w2) | Inl (e, w2) \<Rightarrow> (Rejected e, w2)) = thrownOrDone x"
  by (cases x) auto

lemma cycleWorld_connected:
  "connect_ok env \<Longrightarrow> cycleWorld v env w =
     thrownOrDone (client_release
       (case tryBody v env ((emit PoolConnect w)\<lparr>clientReleased := False\<rparr>) of
          Inr w' \<Rightarrow> w' | Inl (e, w') \<Rightarrow> catchBlock env w'))"
  by (simp add: cycleWorld_def checkAndProcessRollRequests_def Let_def snd_settle_case)

lemma cycle_table:
  "tableAfter v env w = table w
   \<or> (\<exists>batch. selectQuery (MAX_REQUESTS_PER_CYCLE env) (lockedByOthers env) (table w) = Inr batch
        \<and> tableAfter v env w = map (settle v env (request_id ` set batch)) (table w))"
proof (cases "connect_ok env")
  case False
  then show ?thesis
    by (simp add: tableAfter_def cycleWorld_def checkAndProcessRollRequests_def)
next
  case True
  let ?w0 = "(emit PoolConnect w)\<lparr>clientReleased := False\<rparr>"
  let ?w1 = "case tryBody v env ?w0 of Inr w' \<Rightarrow> w' | Inl (e, w') \<Rightarrow> catchBlock env w'"
  have "tableAfter v env w = table (thrownOrDone (client_release ?w1))"
    using True by (simp add: tableAfter_def cycleWorld_connected)
  then have t: "tableAfter v env w = table ?w1" by simp
  show ?thesis
  proof (cases "tryBody v env ?w0")
    case (Inl ex)
    then show ?thesis using t tryBody_table [where v = v and env = env and w = ?w0] by (cases ex) simp
  next
    case (Inr w')
    then show ?thesis using t tryBody_table [where v = v and env = env and w = ?w0] by simp
  qed
qed

lemma localRoll_range: "0 \<le> x \<Longrightarrow> x < 1 \<Longrightarrow> 1 \<le> localRoll x \<and> localRoll x \<le> 6"
proof -
  assume a: "0 \<le> x" "x < 1"
  have "0 \<le> \<lfloor>x * 6\<rfloor>" using a by simp
  moreover have "\<lfloor>x * 6\<rfloor> < 6" using a by (simp add: floor_less_iff)
  ultimately show ?thesis by (simp add: localRoll_def)
qed

lemma tableAfter_nth:
  assumes "i < length (table w)"
  shows "length (tableAfter v env w) = length (table w)
    \<and> (tableAfter v env w ! i = table w ! i
       \<or> status (table w ! i) = Pending
         \<and> tableAfter v env w ! i = (table w ! i)
              \<lparr>status := fst (outcome v env (request_id (table w ! i))),
               roll_value := snd (outcome v env (request_id (table w ! i))),
               processed_at := Some (NOW env)\<rparr>)"
proof -
  from cycle_table [of v env w] show ?thesis
  proof
    assume "tableAfter v env w = table w"
    then show ?thesis by simp
  next
    assume "\<exists>batch. selectQuery (MAX_REQUESTS_PER_CYCLE env) (lockedByOthers env) (table w) = Inr batch
        \<and> tableAfter v env w = map (settle v env (request_id ` set batch)) (table w)"
    then obtain batch :: "request_row list" where
      b: "tableAfter v env w = map (settle v env (request_id ` set batch)) (table w)" by blast
    have "tableAfter v env w ! i = settle v env (request_id ` set batch) (table w ! i)"
      using assms by (simp add: b)
    then show ?thesis
      by (simp add: b settle_def)
  qed
qed

lemma sendsOf_append [simp]: "sendsOf (xs @ ys) = sendsOf xs @ sendsOf ys"
  by (induction xs rule: sendsOf.induct) simp_all

lemma callsFor_Nil [simp]: "callsFor v [] = []"
  by (cases v) (simp_all add: callsFor_def)

lemma callsFor_Cons: "callsFor v (r # rs) = callsFor v [r] @ callsFor v rs"
  by (cases v) (simp_all add: callsFor_def)

lemma afterSend_sends:
  "sendsOf (trace (afterSend v env r w)) = sendsOf (trace w) @ callsFor v [r]"
  by (cases v) (simp_all add: afterSend_def determineOutcome_def sendAndRead_def callsFor_def Let_def
      split: send_result.splits)

lemma afterRow_sends:
  "sendsOf (trace (afterRow v env r w)) = sendsOf (trace w) @ callsFor v [r]"
  by (simp add: afterRow_def Let_def afterSend_sends)

lemma processRows_sends_ok:
  "\<forall>r \<in> set rows. query_ok env (Update (request_id r)) \<Longrightarrow>
   sendsOf (trace (thrownOrDone (processRows v env rows w))) = sendsOf (trace w) @ callsFor v rows"
proof (induction rows arbitrary: w)
  case Nil
  then show ?case by simp
next
  case (Cons request rest)
  then show ?case
    using callsFor_Cons [of v request rest]
    by (simp add: processRows_step afterRow_sends del: processRows.simps(2))
qed

lemma processRows_sends_prefix:
  "\<exists>k. sendsOf (trace (thrownOrDone (processRows v env rows w)))
        = sendsOf (trace w) @ callsFor v (take k rows)"
proof (induction rows arbitrary: w)
  case Nil
  then show ?case by simp
next
  case (Cons request rest)
  show ?case
  proof (cases "query_ok env (Update (request_id request))")
    case True
    obtain k where "sendsOf (trace (thrownOrDone (processRows v env rest (afterRow v env request w))))
        = sendsOf (trace (afterRow v env request w)) @ callsFor v (take k rest)"
      using Cons.IH by blast
    then have "sendsOf (trace (thrownOrDone (processRows v env (request # rest) w)))
        = sendsOf (trace w) @ callsFor v (take (Suc k) (request # rest))"
      using True callsFor_Cons [of v request "take k rest"]
      by (simp add: processRows_step afterRow_sends del: processRows.simps(2))
    then show ?thesis by blast
  next
    case False
    have "sendsOf (trace (thrownOrDone (processRows v env (request # rest) w)))
        = sendsOf (trace w) @ callsFor v (take (Suc 0) (request # rest))"
      using False by (simp add: processRows_step afterSend_sends del: processRows.simps(2))
    then show ?thesis by blast
  qed
qed

lemma tryBody_update_fails:
  assumes "query_ok env Begin" "query_ok env Select"
      and "selectQuery (MAX_REQUESTS_PER_CYCLE env) (lockedByOthers env) (table w) = Inr batch"
      and "\<exists>r \<in> set batch. \<not> query_ok env (Update (request_id r))"
  shows "\<exists>w' evs. tryBody v env w = Inl (DbError, w')
           \<and> table w' = table w \<and> clientReleased w' = clientReleased w
           \<and> trace w' = trace w @ [Query Begin, Query Select, Console (Found (length batch))] @ evs
           \<and> list_all loopEvent evs"
proof -
  let ?W = "emit (Console (Found (length batch)))
              (emit (Query Select) ((emit (Query Begin) w)\<lparr>txn := table (emit (Query Begin) w)\<rparr>))"
  from assms(4) have ne: "batch \<noteq> []" by auto
  obtain w' where l: "processRows v env batch ?W = Inl (DbError, w')"
    using processRows_fails [OF assms(4)] by blast
  have t: "tryBody v env w = Inl (DbError, w')"
    using assms(1-3) ne l by (simp add: tryBody_def client_query_def)
  obtain evs where e: "trace w' = trace ?W @ evs" "list_all loopEvent evs"
    using processRows_InlD(3) [OF l] by blast
  have "table w' = table w" "clientReleased w' = clientReleased w"
    using processRows_InlD(1,2) [OF l] by simp_all
  moreover have "trace w' = trace w @ [Query Begin, Query Select, Console (Found (length batch))] @ evs"
    using e by simp
  ultimately show ?thesis using t e(2) by blast
qed

lemma tryBody_all_ok:
  assumes "query_ok env Begin" "query_ok env Select" "query_ok env Commit"
      and "selectQuery (MAX_REQUESTS_PER_CYCLE env) (lockedByOthers env) (table w) = Inr batch"
      and "batch \<noteq> []"
      and "\<forall>r \<in> set batch. query_ok env (Update (request_id r))"
  shows "\<exists>w' evs. tryBody v env w = Inr w'
           \<and> table w' = map (settle v env (request_id ` set batch)) (table w)
           \<and> clientReleased w' = clientReleased w
           \<and> trace w' = trace w @ [Query Begin, Query Select, Console (Found (length batch))] @ evs
                          @ [Query Commit]
           \<and> list_all loopEvent evs \<and> sendsOf evs = callsFor v batch"
proof -
  let ?W = "emit (Console (Found (length batch)))
              (emit (Query Select) ((emit (Query Begin) w)\<lparr>txn := table (emit (Query Begin) w)\<rparr>))"
  obtain w3 where r: "processRows v env batch ?W = Inr w3"
    using processRows_ok [OF assms(6), of v ?W] by blast
  have t: "tryBody v env w = Inr ((emit (Query Commit) w3)\<lparr>table := txn (emit (Query Commit) w3)\<rparr>)"
    using assms(1-5) r by (simp add: tryBody_def client_query_def)
  obtain evs where e: "trace w3 = trace ?W @ evs" "list_all loopEvent evs"
    using processRows_InrD(4) [OF r] by blast
  have "sendsOf (trace w3) = sendsOf (trace ?W) @ callsFor v batch"
    using processRows_sends_ok [OF assms(6), of v ?W] r by simp
  then have s: "sendsOf evs = callsFor v batch"
    using e(1) by simp
  have x: "txn w3 = map (settle v env (request_id ` set batch)) (table w)"
    using processRows_InrD(1) [OF r] by simp
  have c: "clientReleased w3 = clientReleased w"
    using processRows_InrD(3) [OF r] by simp
  let ?w' = "(emit (Query Commit) w3)\<lparr>table := txn (emit (Query Commit) w3)\<rparr>"
  have "table ?w' = map (settle v env (request_id ` set batch)) (table w)"
    using x by simp
  moreover have "clientReleased ?w' = clientReleased w" using c by simp
  moreover have "trace ?w' = trace w @ [Query Begin, Query Select, Console (Found (length batch))] @ evs
                          @ [Query Commit]"
    using e(1) by simp
  ultimately show ?thesis using t e(2) s by blast
qed

lemma cycle_update_fails:
  assumes "connect_ok env" "query_ok env Begin" "query_ok env Select"
      and "selectQuery (MAX_REQUESTS_PER_CYCLE env) (lockedByOthers env) (table w) = Inr batch"
      and "\<exists>r \<in> set batch. \<not> query_ok env (Update (request_id r))"
  shows "cycleResult v env w = Resolved \<and> tableAfter v env w = table w
       \<and> (\<exists>evs c. trace (cycleWorld v env w) =
             trace w @ [PoolConnect, Query Begin, Query Select, Console (Found (length batch))] @ evs
                     @ [Console PollError, Query Rollback, Console c, Release]
             \<and> list_all loopEvent evs)"
proof -
  let ?w0 = "(emit PoolConnect w)\<lparr>clientReleased := False\<rparr>"
  have sel: "selectQuery (MAX_REQUESTS_PER_CYCLE env) (lockedByOthers env) (table ?w0) = Inr batch"
    using assms(4) by simp
  obtain w' evs where t: "tryBody v env ?w0 = Inl (DbError, w')"
      and f: "table w' = table ?w0" "clientReleased w' = clientReleased ?w0"
      and tr: "trace w' = trace ?w0 @ [Query Begin, Query Select, Console (Found (length batch))] @ evs"
      and le: "list_all loopEvent evs"
    using tryBody_update_fails [OF assms(2,3) sel assms(5), of v] by blast
  let ?c = "if query_ok env Rollback then RolledBack else RollbackFailed"
  have cb: "table (catchBlock env w') = table w" "clientReleased (catchBlock env w') = False"
      "trace (catchBlock env w') = trace w' @ [Console PollError, Query Rollback, Console ?c]"
    using f by (simp_all add: catchBlock_def client_query_def)
  have full: "checkAndProcessRollRequests v env w
      = (Resolved, (emit Release (catchBlock env w'))\<lparr>clientReleased := True\<rparr>)"
    using assms(1) t cb(2) by (simp add: checkAndProcessRollRequests_def Let_def client_release_def)
  have "trace (cycleWorld v env w) =
             trace w @ [PoolConnect, Query Begin, Query Select, Console (Found (length batch))] @ evs
                     @ [Console PollError, Query Rollback, Console ?c, Release]"
    using full cb(3) tr by (simp add: cycleWorld_def)
  moreover have "cycleResult v env w = Resolved" using full by (simp add: cycleResult_def)
  moreover have "tableAfter v env w = table w"
    using full cb(1) by (simp add: tableAfter_def cycleWorld_def)
  ultimately show ?thesis using le by blast
qed

lemma cycle_all_ok:
  assumes "connect_ok env" "\<forall>q. query_ok env q"
      and "selectQuery (MAX_REQUESTS_PER_CYCLE env) (lockedByOthers env) (table w) = Inr batch"
      and "batch \<noteq> []"
  shows "cycleResult v env w = Resolved
       \<and> tableAfter v env w = map (settle v env (request_id ` set batch)) (table w)
       \<and> (\<exists>evs. trace (cycleWorld v env w) =
             trace w @ [PoolConnect, Query Begin, Query Select, Console (Found (length batch))] @ evs
                     @ [Query Commit, Release]
             \<and> list_all loopEvent evs \<and> sendsOf evs = callsFor v batch)"
proof -
  let ?w0 = "(emit PoolConnect w)\<lparr>clientReleased := False\<rparr>"
  have sel: "selectQuery (MAX_REQUESTS_PER_CYCLE env) (lockedByOthers env) (table ?w0) = Inr batch"
    using assms(3) by simp
  have q: "query_ok env Begin" "query_ok env Select" "query_ok env Commit"
      "\<forall>r \<in> set batch. query_ok env (Update (request_id r))"
    using assms(2) by simp_all
  obtain w' evs where t: "tryBody v env ?w0 = Inr w'"
      and f: "table w' = map (settle v env (request_id ` set batch)) (table ?w0)"
             "clientReleased w' = clientReleased ?w0"
      and tr: "trace w' = trace ?w0 @ [Query Begin, Query Select, Console (Found (length batch))] @ evs
                 @ [Query Commit]"
      and le: "list_all loopEvent evs" "sendsOf evs = callsFor v batch"
    using tryBody_all_ok [OF q(1-3) sel assms(4) q(4), of v] by blast
  have full: "checkAndProcessRollRequests v env w = (Resolved, (emit Release w')\<lparr>clientReleased := True\<rparr>)"
    using assms(1) t f(2) by (simp add: checkAndProcessRollRequests_def Let_def client_release_def)
  have "trace (cycleWorld v env w) =
             trace w @ [PoolConnect, Query Begin, Query Select, Console (Found (length batch))] @ evs
                     @ [Query Commit, Release]"
    using full tr by (simp add: cycleWorld_def)
  moreover have "cycleResult v env w = Resolved" using full by (simp add: cycleResult_def)
  moreover have "tableAfter v env w = map (settle v env (request_id ` set batch)) (table w)"
    using full f(1) by (simp add: tableAfter_def cycleWorld_def)
  ultimately show ?thesis using le by blast
qed

lemmas cycle_defs = checkAndProcessRollRequests_def tryBody_def catchBlock_def client_query_def
  client_release_def selectQuery_def selectable_def updateQuery_def updateMatches_def
  determineOutcome_def sendAndRead_def emojiToSend_def emit_def cycleResult_def cycleWorld_def
  tableAfter_def idleWorld_def quietEnv_def pendingRow_def completedRow_def Let_def

lemma processRows_sends_InrD:
  "processRows v env rows w = Inr w' \<Longrightarrow>
   \<exists>k. sendsOf (trace w') = sendsOf (trace w) @ callsFor v (take k rows)"
  using processRows_sends_prefix [of v env rows w] by simp

lemma processRows_sends_InlD:
  "processRows v env rows w = Inl (e, w') \<Longrightarrow>
   \<exists>k. sendsOf (trace w') = sendsOf (trace w) @ callsFor v (take k rows)"
  using processRows_sends_prefix [of v env rows w] by simp

lemma take_0_ex: "P [] \<Longrightarrow> \<exists>k. P (take k xs)"
  by (rule exI [of _ 0]) simp

lemma tryBody_sends:
  "\<exists>k. sendsOf (trace (thrownOrDone (tryBody v env w)))
        = sendsOf (trace w) @ callsFor v (take k (claimed env (table w)))"
proof (cases "query_ok env Begin \<and> query_ok env Select")
  case False
  then have "sendsOf (trace (thrownOrDone (tryBody v env w))) = sendsOf (trace w) @ callsFor v []"
    by (auto simp: tryBody_def client_query_def)
  then show ?thesis by (intro take_0_ex) 
next
  case ok: True
  show ?thesis
  proof (cases "selectQuery (MAX_REQUESTS_PER_CYCLE env) (lockedByOthers env) (table w)")
    case (Inl e)
    then have "sendsOf (trace (thrownOrDone (tryBody v env w))) = sendsOf (trace w) @ callsFor v []"
      using ok by (simp add: tryBody_def client_query_def)
    then show ?thesis by (intro take_0_ex)
  next
    case (Inr batch)
    then have cl: "claimed env (table w) = batch" by (simp add: claimed_def)
    show ?thesis
    proof (cases "batch = []")
      case True
      then have "sendsOf (trace (thrownOrDone (tryBody v env w))) = sendsOf (trace w) @ callsFor v []"
        using ok Inr by (simp add: tryBody_def client_query_def client_release_def)
      then show ?thesis by (intro take_0_ex)
    next
      case ne: False
      let ?W = "emit (Console (Found (length batch)))
              (emit (Query Select) ((emit (Query Begin) w)\<lparr>txn := table (emit (Query Begin) w)\<rparr>))"
      obtain k where k: "sendsOf (trace (thrownOrDone (processRows v env batch ?W)))
          = sendsOf (trace ?W) @ callsFor v (take k batch)"
        using processRows_sends_prefix by blast
      have "sendsOf (trace (thrownOrDone (tryBody v env w)))
          = sendsOf (trace (thrownOrDone (processRows v env batch ?W)))"
        using ok Inr ne
        by (cases "processRows v env batch ?W") (auto simp: tryBody_def client_query_def)
      then show ?thesis using k cl by auto
    qed
  qed
qed

lemma catchBlock_sends [simp]: "sendsOf (trace (catchBlock env w)) = sendsOf (trace w)"
  by (simp add: catchBlock_def client_query_def)

lemma client_release_sends [simp]:
  "sendsOf (trace (thrownOrDone (client_release w))) = sendsOf (trace w)"
  by (simp add: client_release_def)

lemma cycle_sends:
  "\<exists>k. sendsOf (trace (cycleWorld v env w))
        = sendsOf (trace w) @ callsFor v (take k (claimed env (table w)))"
proof (cases "connect_ok env")
  case False
  then have "sendsOf (trace (cycleWorld v env w)) = sendsOf (trace w) @ callsFor v []"
    by (simp add: cycleWorld_def checkAndProcessRollRequests_def)
  then show ?thesis by (intro take_0_ex)
next
  case True
  let ?w0 = "(emit PoolConnect w)\<lparr>clientReleased := False\<rparr>"
  obtain k where k: "sendsOf (trace (thrownOrDone (tryBody v env ?w0)))
        = sendsOf (trace ?w0) @ callsFor v (take k (claimed env (table ?w0)))"
    using tryBody_sends by blast
  have "sendsOf (trace (cycleWorld v env w)) = sendsOf (trace (thrownOrDone (tryBody v env ?w0)))"
  proof (cases "tryBody v env ?w0")
    case (Inl ex)
    then show ?thesis using True by (cases ex) (simp add: cycleWorld_connected)
  next
    case (Inr w')
    then show ?thesis using True by (simp add: cycleWorld_connected)
  qed
  then have "sendsOf (trace (cycleWorld v env w))
        = sendsOf (trace w) @ callsFor v (take k (claimed env (table w)))"
    using k by simp
  then show ?thesis by blast
qed

section \<open>What a cycle records\<close>

text \<open>
  C3, as stated, fails in the animated-emoji helper: the value written is whatever
  \<open>dice.value\<close> the channel reports, and for the slot machine emoji that is a number
  up to 64. The request below ends \<open>completed\<close> with \<open>roll_value = 64\<close>.
\<close>

theorem recorded_value_above_six_counterexample:
  "status (table (idleWorld [pendingRow 10 20 (Some SLOT)]) ! 0) = Pending
   \<and> status (tableAfter AnimatedEmoji slotEnv (idleWorld [pendingRow 10 20 (Some SLOT)]) ! 0) = Completed
   \<and> roll_value (tableAfter AnimatedEmoji slotEnv (idleWorld [pendingRow 10 20 (Some SLOT)]) ! 0) = Some 64
   \<and> \<not> (64 \<le> (6::int))"
  by (simp add: cycle_defs slotEnv_def SLOT_def)

text \<open>
  C3, amended. For every row that a cycle takes from \<open>pending\<close> to a terminal status,
  \<open>roll_value\<close> is set exactly when the status is \<open>completed\<close>, an \<open>error\<close> row has
  no value, and a value that is set is the number the channel reported for that request
  in the animated helpers, and a number from 1 to 6 in the plain polling helper
  (\<open>Math.random()\<close> being in \<open>[0, 1)\<close>).
\<close>

theorem terminal_rows_value_iff_completed:
  assumes "\<forall>rid. 0 \<le> Math_random env rid \<and> Math_random env rid < 1"
      and "i < length (table w)"
      and "status (table w ! i) = Pending"
      and "status (tableAfter v env w ! i) \<noteq> Pending"
  shows "(roll_value (tableAfter v env w ! i) \<noteq> None \<longleftrightarrow> status (tableAfter v env w ! i) = Completed)
       \<and> (status (tableAfter v env w ! i) = Error \<longrightarrow> roll_value (tableAfter v env w ! i) = None)
       \<and> (\<forall>x. roll_value (tableAfter v env w ! i) = Some x \<longrightarrow>
             (if v = PlainPoll then 1 \<le> x \<and> x \<le> 6
              else sendDice_result env (request_id (table w ! i)) = Dice x))"
proof -
  let ?r = "table w ! i"
  have "tableAfter v env w ! i \<noteq> ?r" using assms(3,4) by auto
  then have r': "tableAfter v env w ! i = ?r\<lparr>status := fst (outcome v env (request_id ?r)),
               roll_value := snd (outcome v env (request_id ?r)),
               processed_at := Some (NOW env)\<rparr>"
    using tableAfter_nth [where i = i and w = w and v = v and env = env] assms(2) by blast
  have "1 \<le> localRoll (Math_random env (request_id ?r)) \<and> localRoll (Math_random env (request_id ?r)) \<le> 6"
    using assms(1) by (simp add: localRoll_range)
  then show ?thesis
    unfolding r' by (simp add: outcome_def split: send_result.splits)
qed

theorem terminal_rows_witness:
  "status (table (idleWorld exampleTable) ! 1) = Pending
   \<and> status (tableAfter AnimatedDice flakyEnv (idleWorld exampleTable) ! 1) = Error
   \<and> roll_value (tableAfter AnimatedDice flakyEnv (idleWorld exampleTable) ! 1) = None"
proof -
  have h1: "\<forall>rid. 0 \<le> Math_random flakyEnv rid \<and> Math_random flakyEnv rid < 1"
    by (simp add: flakyEnv_def quietEnv_def)
  have h2: "1 < length (table (idleWorld exampleTable))"
    by (simp add: idleWorld_def exampleTable_def)
  have h3: "status (table (idleWorld exampleTable) ! 1) = Pending"
    by (simp add: idleWorld_def exampleTable_def pendingRow_def)
  have h4: "status (tableAfter AnimatedDice flakyEnv (idleWorld exampleTable) ! 1) = Error"
    by (simp add: cycle_defs flakyEnv_def exampleTable_def)
  then have h4': "status (tableAfter AnimatedDice flakyEnv (idleWorld exampleTable) ! 1) \<noteq> Pending"
    by simp
  from terminal_rows_value_iff_completed [OF h1 h2 h3 h4'] h3 h4 show ?thesis by simp
qed

text \<open>
  C10. In the plain polling helper a cycle changes a row only by taking it from
  \<open>pending\<close> to \<open>completed\<close> with a value from 1 to 6 (\<open>Math.random()\<close> being in
  \<open>[0, 1)\<close>); it never writes \<open>error\<close>. When no query fails, every claimed row is
  recorded so.
\<close>

theorem plain_poll_only_completes:
  assumes "\<forall>rid. 0 \<le> Math_random env rid \<and> Math_random env rid < 1"
      and "i < length (table w)"
  shows "(tableAfter PlainPoll env w ! i = table w ! i
          \<or> status (table w ! i) = Pending
            \<and> status (tableAfter PlainPoll env w ! i) = Completed
            \<and> (\<exists>x. roll_value (tableAfter PlainPoll env w ! i) = Some x \<and> 1 \<le> x \<and> x \<le> 6))
       \<and> (status (tableAfter PlainPoll env w ! i) = Error \<longrightarrow> status (table w ! i) = Error)
       \<and> (connect_ok env \<and> (\<forall>q. query_ok env q) \<and> table w ! i \<in> set (claimed env (table w))
            \<longrightarrow> status (tableAfter PlainPoll env w ! i) = Completed)"
proof -
  let ?r = "table w ! i" and ?r' = "tableAfter PlainPoll env w ! i"
  have rng: "1 \<le> localRoll (Math_random env (request_id ?r)) \<and> localRoll (Math_random env (request_id ?r)) \<le> 6"
    using assms(1) by (simp add: localRoll_range)
  have nth: "?r' = ?r \<or> status ?r = Pending
         \<and> ?r' = ?r\<lparr>status := fst (outcome PlainPoll env (request_id ?r)),
               roll_value := snd (outcome PlainPoll env (request_id ?r)),
               processed_at := Some (NOW env)\<rparr>"
    using tableAfter_nth [where i = i and w = w and v = PlainPoll and env = env] assms(2) by blast
  have a: "?r' = ?r \<or> status ?r = Pending \<and> status ?r' = Completed
            \<and> (\<exists>x. roll_value ?r' = Some x \<and> 1 \<le> x \<and> x \<le> 6)"
    using nth rng by (auto simp: outcome_def)
  have b: "status ?r' = Error \<longrightarrow> status ?r = Error"
    using a by auto
  have c: "connect_ok env \<and> (\<forall>q. query_ok env q) \<and> ?r \<in> set (claimed env (table w))
            \<longrightarrow> status ?r' = Completed"
  proof
    assume h: "connect_ok env \<and> (\<forall>q. query_ok env q) \<and> ?r \<in> set (claimed env (table w))"
    then obtain batch where sel:
      "selectQuery (MAX_REQUESTS_PER_CYCLE env) (lockedByOthers env) (table w) = Inr batch"
      and mem: "?r \<in> set batch"
      by (cases "selectQuery (MAX_REQUESTS_PER_CYCLE env) (lockedByOthers env) (table w)")
         (auto simp: claimed_def)
    from mem have ne: "batch \<noteq> []" by auto
    have pend: "status ?r = Pending"
      using sel mem by (auto simp: selectQuery_def selectable_def split: if_splits dest: in_set_takeD)
    have "tableAfter PlainPoll env w = map (settle PlainPoll env (request_id ` set batch)) (table w)"
      using cycle_all_ok [OF _ _ sel ne, of PlainPoll] h by blast
    then have "?r' = settle PlainPoll env (request_id ` set batch) ?r"
      using assms(2) by simp
    then show "status ?r' = Completed"
      using pend mem by (simp add: settle_def outcome_def)
  qed
  from a b c show ?thesis by blast
qed

theorem plain_poll_witness:
  "table (idleWorld exampleTable) ! 0 \<in> set (claimed quietEnv (table (idleWorld exampleTable)))
   \<and> status (table (idleWorld exampleTable) ! 0) = Pending
   \<and> status (tableAfter PlainPoll quietEnv (idleWorld exampleTable) ! 0) = Completed
   \<and> roll_value (tableAfter PlainPoll quietEnv (idleWorld exampleTable) ! 0) = Some 4"
proof -
  have h1: "\<forall>rid. 0 \<le> Math_random quietEnv rid \<and> Math_random quietEnv rid < 1"
    by (simp add: quietEnv_def)
  have h2: "0 < length (table (idleWorld exampleTable))"
    by (simp add: idleWorld_def exampleTable_def)
  have h3: "connect_ok quietEnv \<and> (\<forall>q. query_ok quietEnv q)"
    by (simp add: quietEnv_def)
  have h4: "table (idleWorld exampleTable) ! 0 \<in> set (claimed quietEnv (table (idleWorld exampleTable)))"
    by (simp add: claimed_def selectQuery_def selectable_def quietEnv_def idleWorld_def
        exampleTable_def pendingRow_def completedRow_def)
  have h5: "status (table (idleWorld exampleTable) ! 0) = Pending"
    by (simp add: idleWorld_def exampleTable_def pendingRow_def)
  have v: "roll_value (tableAfter PlainPoll quietEnv (idleWorld exampleTable) ! 0) = Some 4"
    by (simp add: cycle_defs exampleTable_def localRoll_def)
  from plain_poll_only_completes [OF h1 h2] h3 h4 h5 v show ?thesis by blast
qed

section \<open>Failures inside a cycle\<close>

lemma claimed_row_settled:
  assumes "selectQuery (MAX_REQUESTS_PER_CYCLE env) (lockedByOthers env) tbl = Inr batch"
      and "r \<in> set batch"
  shows "r\<lparr>status := fst (outcome v env (request_id r)),
           roll_value := snd (outcome v env (request_id r)),
           processed_at := Some (NOW env)\<rparr>
         \<in> set (map (settle v env (request_id ` set batch)) tbl)"
proof -
  have "r \<in> set tbl \<and> status r = Pending"
    using assms by (auto simp: selectQuery_def selectable_def split: if_splits dest: in_set_takeD)
  moreover have "request_id r \<in> request_id ` set batch" using assms(2) by simp
  ultimately have "r \<in> set tbl"
    and "settle v env (request_id ` set batch) r =
         r\<lparr>status := fst (outcome v env (request_id r)),
           roll_value := snd (outcome v env (request_id r)),
           processed_at := Some (NOW env)\<rparr>"
    by (simp_all add: settle_def)
  then show ?thesis by (metis image_eqI list.set_map)
qed

text \<open>
  C4. In the two animated helpers, with the database answering every query: whatever
  the channel does for the rows of a claimed batch, the cycle returns normally and calls
  the channel once for every row of the batch, in order. A row whose call throws or
  brings no dice is recorded as \<open>error\<close> with no value, and a row whose call reports
  a value is recorded as \<open>completed\<close> with it, independently of the other rows.
\<close>

theorem channel_failure_recorded_and_isolated:
  assumes "v \<noteq> PlainPoll" and "connect_ok env" and "\<forall>q. query_ok env q"
      and "selectQuery (MAX_REQUESTS_PER_CYCLE env) (lockedByOthers env) (table w) = Inr batch"
      and "r \<in> set batch"
  shows "(sendDice_result env (request_id r) = Throws \<or> sendDice_result env (request_id r) = NoDice
            \<longrightarrow> r\<lparr>status := Error, roll_value := None, processed_at := Some (NOW env)\<rparr>
                  \<in> set (tableAfter v env w))
       \<and> (\<forall>x. sendDice_result env (request_id r) = Dice x
            \<longrightarrow> r\<lparr>status := Completed, roll_value := Some x, processed_at := Some (NOW env)\<rparr>
                  \<in> set (tableAfter v env w))
       \<and> sendsOf (trace (cycleWorld v env w)) = sendsOf (trace w) @ callsFor v batch
       \<and> cycleResult v env w = Resolved"
proof -
  from assms(5) have ne: "batch \<noteq> []" by auto
  obtain evs where res: "cycleResult v env w = Resolved"
    and tab: "tableAfter v env w = map (settle v env (request_id ` set batch)) (table w)"
    and tr: "trace (cycleWorld v env w) =
             trace w @ [PoolConnect, Query Begin, Query Select, Console (Found (length batch))] @ evs
                     @ [Query Commit, Release]"
    and ev: "sendsOf evs = callsFor v batch"
    using cycle_all_ok [OF assms(2,3,4) ne, of v] by blast
  have row: "r\<lparr>status := fst (outcome v env (request_id r)),
           roll_value := snd (outcome v env (request_id r)),
           processed_at := Some (NOW env)\<rparr> \<in> set (tableAfter v env w)"
    unfolding tab using assms(4,5) by (rule claimed_row_settled)
  have a: "sendDice_result env (request_id r) = Throws \<or> sendDice_result env (request_id r) = NoDice
            \<longrightarrow> r\<lparr>status := Error, roll_value := None, processed_at := Some (NOW env)\<rparr>
                  \<in> set (tableAfter v env w)"
    using row assms(1) by (auto simp: outcome_def)
  have b: "\<forall>x. sendDice_result env (request_id r) = Dice x
            \<longrightarrow> r\<lparr>status := Completed, roll_value := Some x, processed_at := Some (NOW env)\<rparr>
                  \<in> set (tableAfter v env w)"
    using row assms(1) by (auto simp: outcome_def)
  have c: "sendsOf (trace (cycleWorld v env w)) = sendsOf (trace w) @ callsFor v batch"
    using tr ev by simp
  from a b c res show ?thesis by blast
qed

theorem channel_failure_witness:
  "sendDice_result flakyEnv (request_id (pendingRow 8 10 (Some []))) = Throws
   \<and> (pendingRow 8 10 (Some []))\<lparr>status := Error, roll_value := None, processed_at := Some 1000\<rparr>
        \<in> set (tableAfter AnimatedDice flakyEnv (idleWorld exampleTable))
   \<and> (pendingRow 7 30 None)\<lparr>status := Completed, roll_value := Some 3, processed_at := Some 1000\<rparr>
        \<in> set (tableAfter AnimatedDice flakyEnv (idleWorld exampleTable))
   \<and> sendsOf (trace (cycleWorld AnimatedDice flakyEnv (idleWorld exampleTable)))
        = [(108, None), (110, None), (107, None)]
   \<and> cycleResult AnimatedDice flakyEnv (idleWorld exampleTable) = Resolved"
proof -
  let ?batch = "[pendingRow 8 10 (Some []), pendingRow 10 20 (Some SLOT), pendingRow 7 30 None]"
  have h1: "AnimatedDice \<noteq> PlainPoll" by simp
  have h2: "connect_ok flakyEnv" and h3: "\<forall>q. query_ok flakyEnv q"
    by (simp_all add: flakyEnv_def quietEnv_def)
  have h4: "selectQuery (MAX_REQUESTS_PER_CYCLE flakyEnv) (lockedByOthers flakyEnv)
              (table (idleWorld exampleTable)) = Inr ?batch"
    by (simp add: selectQuery_def selectable_def flakyEnv_def quietEnv_def idleWorld_def
        exampleTable_def pendingRow_def completedRow_def)
  have h5: "pendingRow 8 10 (Some []) \<in> set ?batch" and h5': "pendingRow 7 30 None \<in> set ?batch"
    by simp_all
  have s8: "sendDice_result flakyEnv (request_id (pendingRow 8 10 (Some []))) = Throws"
    and s7: "sendDice_result flakyEnv (request_id (pendingRow 7 30 None)) = Dice 3"
    and n: "NOW flakyEnv = 1000"
    by (simp_all add: flakyEnv_def quietEnv_def pendingRow_def)
  have c: "callsFor AnimatedDice ?batch = [(108, None), (110, None), (107, None)]"
    by (simp add: callsFor_def pendingRow_def)
  have t: "trace (idleWorld exampleTable) = []" by (simp add: idleWorld_def)
  from channel_failure_recorded_and_isolated [OF h1 h2 h3 h4 h5]
       channel_failure_recorded_and_isolated [OF h1 h2 h3 h4 h5']
  show ?thesis unfolding n c t using s8 s7 by simp
qed

text \<open>
  C5. When the \<open>UPDATE\<close> of some claimed row is rejected (the exception that can leave
  the loop), the cycle still returns normally; it logs the error, issues \<open>ROLLBACK\<close>
  and no \<open>COMMIT\<close>, and releases the client once, last. The committed table is what
  it was: every claimed row is still in it, pending and unchanged. Settling the call
  leaves the timer armed and the process running.
\<close>

theorem unexpected_error_rolls_back_batch:
  assumes "connect_ok env" and "query_ok env Begin" and "query_ok env Select"
      and "selectQuery (MAX_REQUESTS_PER_CYCLE env) (lockedByOthers env) (table w) = Inr batch"
      and "\<exists>r \<in> set batch. \<not> query_ok env (Update (request_id r))"
  shows "cycleResult v env w = Resolved
       \<and> tableAfter v env w = table w
       \<and> (\<forall>r \<in> set batch. r \<in> set (tableAfter v env w) \<and> status r = Pending)
       \<and> (\<exists>evs c. trace (cycleWorld v env w) =
             trace w @ [PoolConnect, Query Begin, Query Select, Console (Found (length batch))] @ evs
                     @ [Console PollError, Query Rollback, Console c, Release]
             \<and> list_all loopEvent evs)
       \<and> intervalArmed (cycleSettled (cycleResult v env w) p) = intervalArmed p
       \<and> exitCode (cycleSettled (cycleResult v env w) p) = exitCode p"
proof -
  have main: "cycleResult v env w = Resolved \<and> tableAfter v env w = table w
       \<and> (\<exists>evs c. trace (cycleWorld v env w) =
             trace w @ [PoolConnect, Query Begin, Query Select, Console (Found (length batch))] @ evs
                     @ [Console PollError, Query Rollback, Console c, Release]
             \<and> list_all loopEvent evs)"
    using assms by (rule cycle_update_fails)
  have rows: "\<forall>r \<in> set batch. r \<in> set (tableAfter v env w) \<and> status r = Pending"
    using main assms(4)
    by (auto simp: selectQuery_def selectable_def split: if_splits dest: in_set_takeD)
  have sched: "intervalArmed (cycleSettled (cycleResult v env w) p) = intervalArmed p
       \<and> exitCode (cycleSettled (cycleResult v env w) p) = exitCode p"
    by (simp add: cycleSettled_def pemit_def Let_def split: settled.splits)
  from main rows sched show ?thesis by blast
qed

theorem unexpected_error_witness:
  "cycleResult AnimatedEmoji brokenUpdateEnv (idleWorld exampleTable) = Resolved
   \<and> tableAfter AnimatedEmoji brokenUpdateEnv (idleWorld exampleTable) = exampleTable
   \<and> trace (cycleWorld AnimatedEmoji brokenUpdateEnv (idleWorld exampleTable)) =
       [PoolConnect, Query Begin, Query Select, Console (Found 3),
        Console (Processing 8), Console (Sending 8), SendDice 108 (Some DICE), Console (SendOk 8 4),
        Query (Update 8), Console (Updated 8),
        Console (Processing 10), Console (Sending 10), SendDice 110 (Some SLOT), Console (SendOk 10 4),
        Query (Update 10),
        Console PollError, Query Rollback, Console RolledBack, Release]
   \<and> intervalArmed (cycleSettled (cycleResult AnimatedEmoji brokenUpdateEnv (idleWorld exampleTable))
        (timerTick (startHelperBot True True initialProcess)))"
proof -
  let ?batch = "[pendingRow 8 10 (Some []), pendingRow 10 20 (Some SLOT), pendingRow 7 30 None]"
  have h1: "connect_ok brokenUpdateEnv" and h2: "query_ok brokenUpdateEnv Begin"
    and h3: "query_ok brokenUpdateEnv Select"
    by (simp_all add: brokenUpdateEnv_def quietEnv_def)
  have h4: "selectQuery (MAX_REQUESTS_PER_CYCLE brokenUpdateEnv) (lockedByOthers brokenUpdateEnv)
              (table (idleWorld exampleTable)) = Inr ?batch"
    by (simp add: selectQuery_def selectable_def brokenUpdateEnv_def quietEnv_def idleWorld_def
        exampleTable_def pendingRow_def completedRow_def)
  have h5: "\<exists>r \<in> set ?batch. \<not> query_ok brokenUpdateEnv (Update (request_id r))"
    by (simp add: brokenUpdateEnv_def quietEnv_def pendingRow_def)
  have tr: "trace (cycleWorld AnimatedEmoji brokenUpdateEnv (idleWorld exampleTable)) =
       [PoolConnect, Query Begin, Query Select, Console (Found 3),
        Console (Processing 8), Console (Sending 8), SendDice 108 (Some DICE), Console (SendOk 8 4),
        Query (Update 8), Console (Updated 8),
        Console (Processing 10), Console (Sending 10), SendDice 110 (Some SLOT), Console (SendOk 10 4),
        Query (Update 10),
        Console PollError, Query Rollback, Console RolledBack, Release]"
    by (simp add: cycle_defs brokenUpdateEnv_def exampleTable_def SLOT_def DICE_def)
  have arm: "intervalArmed (timerTick (startHelperBot True True initialProcess))"
    by (simp add: timerTick_def startHelperBot_def initialProcess_def pemit_def)
  have tb: "table (idleWorld exampleTable) = exampleTable" by (simp add: idleWorld_def)
  note inst = unexpected_error_rolls_back_batch [OF h1 h2 h3 h4 h5,
      of AnimatedEmoji "timerTick (startHelperBot True True initialProcess)"]
  from inst have res: "cycleResult AnimatedEmoji brokenUpdateEnv (idleWorld exampleTable) = Resolved"
    by blast
  from inst have tab: "tableAfter AnimatedEmoji brokenUpdateEnv (idleWorld exampleTable) = exampleTable"
    unfolding tb by blast
  from inst have "intervalArmed (cycleSettled (cycleResult AnimatedEmoji brokenUpdateEnv (idleWorld exampleTable))
        (timerTick (startHelperBot True True initialProcess)))
      = intervalArmed (timerTick (startHelperBot True True initialProcess))"
    by blast
  with arm have still: "intervalArmed (cycleSettled (cycleResult AnimatedEmoji brokenUpdateEnv (idleWorld exampleTable))
        (timerTick (startHelperBot True True initialProcess)))"
    by blast
  from res tab tr still show ?thesis by blast
qed

section \<open>The borrowed client\<close>

text \<open>
  How often a cycle that obtained a client calls \<open>client.release()\<close>: once on every
  path, except twice when the animated-emoji helper finds nothing to claim.
\<close>

lemma loopEvents_no_release: "list_all loopEvent evs \<Longrightarrow> count_list evs Release = 0"
  by (induction evs) (auto simp: loopEvent_def)

lemma count_list_append_release [simp]:
  "count_list (xs @ ys) Release = count_list xs Release + count_list ys Release"
  by (induction xs) simp_all

lemma processRows_release:
  "count_list (trace (thrownOrDone (processRows v env rows w))) Release = count_list (trace w) Release"
proof -
  obtain evs where "trace (thrownOrDone (processRows v env rows w)) = trace w @ evs"
    and "list_all loopEvent evs"
    using processRows_trace by blast
  then show ?thesis by (simp add: loopEvents_no_release)
qed

lemma catchBlock_release [simp]:
  "count_list (trace (catchBlock env w)) Release = count_list (trace w) Release"
  "clientReleased (catchBlock env w) = clientReleased w"
  by (simp_all add: catchBlock_def client_query_def)

lemma tryBody_release:
  assumes "\<not> clientReleased w"
  shows "case tryBody v env w of
           Inl (e, w') \<Rightarrow> \<not> clientReleased w'
              \<and> count_list (trace w') Release = count_list (trace w) Release
         | Inr w' \<Rightarrow>
              if v = AnimatedEmoji \<and> emptyBatchCommitted env (table w)
              then clientReleased w' \<and> count_list (trace w') Release = count_list (trace w) Release + 1
              else \<not> clientReleased w' \<and> count_list (trace w') Release = count_list (trace w) Release"
proof (cases "query_ok env Begin \<and> query_ok env Select")
  case False
  then show ?thesis using assms by (auto simp: tryBody_def client_query_def)
next
  case ok: True
  show ?thesis
  proof (cases "selectQuery (MAX_REQUESTS_PER_CYCLE env) (lockedByOthers env) (table w)")
    case (Inl e)
    then show ?thesis using ok assms by (simp add: tryBody_def client_query_def)
  next
    case (Inr batch)
    show ?thesis
    proof (cases "batch = []")
      case True
      then show ?thesis using ok Inr assms
        by (simp add: tryBody_def client_query_def client_release_def emptyBatchCommitted_def)
    next
      case ne: False
      let ?W = "emit (Console (Found (length batch)))
              (emit (Query Select) ((emit (Query Begin) w)\<lparr>txn := table (emit (Query Begin) w)\<rparr>))"
      have c: "count_list (trace (thrownOrDone (processRows v env batch ?W))) Release
            = count_list (trace w) Release"
        by (simp add: processRows_release)
      have f: "clientReleased (thrownOrDone (processRows v env batch ?W)) = clientReleased w"
        using processRows_frame [of v env batch ?W] by simp
      have ne': "\<not> emptyBatchCommitted env (table w)"
        using Inr ne by (simp add: emptyBatchCommitted_def)
      show ?thesis
      proof (cases "processRows v env batch ?W")
        case (Inl ex)
        then show ?thesis using ok Inr ne c f assms
          by (cases ex) (simp add: tryBody_def client_query_def)
      next
        case r: (Inr w3)
        then show ?thesis using ok Inr ne ne' c f assms
          by (simp add: tryBody_def client_query_def)
      qed
    qed
  qed
qed

lemma cycle_release_count:
  assumes "connect_ok env"
  shows "count_list (trace (cycleWorld v env w)) Release
         = count_list (trace w) Release
           + (if v = AnimatedEmoji \<and> emptyBatchCommitted env (table w) then 2 else 1)"
proof -
  let ?w0 = "(emit PoolConnect w)\<lparr>clientReleased := False\<rparr>"
  have w0: "\<not> clientReleased ?w0" "count_list (trace ?w0) Release = count_list (trace w) Release"
      "table ?w0 = table w"
    by simp_all
  note tb = tryBody_release [where v = v and env = env and w = ?w0, OF w0(1)]
  show ?thesis
  proof (cases "tryBody v env ?w0")
    case (Inl ex)
    obtain e w' where ex: "ex = (e, w')" by (cases ex)
    have "\<not> clientReleased w'" "count_list (trace w') Release = count_list (trace w) Release"
      using tb Inl ex w0 by simp_all
    moreover have "\<not> (v = AnimatedEmoji \<and> emptyBatchCommitted env (table w))"
    proof
      assume a: "v = AnimatedEmoji \<and> emptyBatchCommitted env (table w)"
      then have "\<exists>w'. tryBody v env ?w0 = Inr w'"
        by (simp add: tryBody_def client_query_def client_release_def emptyBatchCommitted_def)
      with Inl show False by simp
    qed
    ultimately show ?thesis
      using assms Inl ex by (simp add: cycleWorld_connected client_release_def)
  next
    case (Inr w')
    show ?thesis
    proof (cases "v = AnimatedEmoji \<and> emptyBatchCommitted env (table w)")
      case True
      then have "clientReleased w'" "count_list (trace w') Release = count_list (trace w) Release + 1"
        using tb Inr w0 by simp_all
      then show ?thesis
        using assms Inr True by (simp add: cycleWorld_connected client_release_def)
    next
      case False
      then have "\<not> clientReleased w'" "count_list (trace w') Release = count_list (trace w) Release"
        using tb Inr w0 by auto
      then show ?thesis
        using assms Inr False by (simp add: cycleWorld_connected client_release_def)
    qed
  qed
qed

text \<open>
  C7 at the empty batch. With no pending row and every query answered, the
  animated-emoji helper commits, calls \<open>client.release()\<close> before its \<open>return\<close>, and
  the \<open>finally\<close> block calls it again: two releases of the one borrowed client, the
  second of which the pool rejects. The animated-dice helper, on the same input,
  releases once.
\<close>

theorem empty_batch_releases_twice:
  "trace (cycleWorld AnimatedEmoji quietEnv (idleWorld [completedRow 9 5 3]))
     = [PoolConnect, Query Begin, Query Select, Query Commit, Release, Release]
   \<and> count_list (trace (cycleWorld AnimatedEmoji quietEnv (idleWorld [completedRow 9 5 3]))) Release = 2
   \<and> cycleResult AnimatedEmoji quietEnv (idleWorld [completedRow 9 5 3]) = Rejected DoubleRelease
   \<and> trace (cycleWorld AnimatedDice quietEnv (idleWorld [completedRow 9 5 3]))
     = [PoolConnect, Query Begin, Query Select, Query Commit, Release]"
  by (simp add: cycle_defs)

section \<open>The emoji passed to the channel\<close>

lemma emojiToSend_nonempty: "emojiToSend r \<noteq> []"
  by (simp add: emojiToSend_def DICE_def split: option.splits)

text \<open>
  C9. In the animated-emoji helper the \<open>sendDice\<close> calls of a cycle are made for the
  claimed rows in order, a first part of them when the cycle is cut short and all of
  them when no query fails, each with the emoji \<open>emojiToSend\<close> of its row. For a row
  whose \<open>emoji_type\<close> is null or the empty string that emoji is the die, and it is never
  the empty string.
\<close>

theorem missing_variant_sends_default_die:
  "(\<exists>k. sendsOf (trace (cycleWorld AnimatedEmoji env w))
          = sendsOf (trace w)
            @ map (\<lambda>r. (chat_id r, Some (emojiToSend r))) (take k (claimed env (table w))))
   \<and> (connect_ok env \<and> (\<forall>q. query_ok env q)
        \<longrightarrow> sendsOf (trace (cycleWorld AnimatedEmoji env w))
            = sendsOf (trace w) @ map (\<lambda>r. (chat_id r, Some (emojiToSend r))) (claimed env (table w)))
   \<and> (emoji_type r = None \<or> emoji_type r = Some [] \<longrightarrow> emojiToSend r = DICE)
   \<and> emojiToSend r \<noteq> []"
proof -
  let ?call = "\<lambda>r. (chat_id r, Some (emojiToSend r))"
  have cf: "\<And>rows. callsFor AnimatedEmoji rows = map ?call rows"
    by (simp add: callsFor_def)
  obtain k where k: "sendsOf (trace (cycleWorld AnimatedEmoji env w))
        = sendsOf (trace w) @ callsFor AnimatedEmoji (take k (claimed env (table w)))"
    using cycle_sends by blast
  then have a: "\<exists>k. sendsOf (trace (cycleWorld AnimatedEmoji env w))
          = sendsOf (trace w) @ map ?call (take k (claimed env (table w)))"
    unfolding cf by blast
  have b: "connect_ok env \<and> (\<forall>q. query_ok env q)
        \<longrightarrow> sendsOf (trace (cycleWorld AnimatedEmoji env w))
            = sendsOf (trace w) @ map ?call (claimed env (table w))"
  proof
    assume h: "connect_ok env \<and> (\<forall>q. query_ok env q)"
    show "sendsOf (trace (cycleWorld AnimatedEmoji env w))
            = sendsOf (trace w) @ map ?call (claimed env (table w))"
    proof (cases "claimed env (table w) = []")
      case True
      then show ?thesis using k by simp
    next
      case False
      then obtain batch where sel:
        "selectQuery (MAX_REQUESTS_PER_CYCLE env) (lockedByOthers env) (table w) = Inr batch"
        and cl: "claimed env (table w) = batch"
        by (cases "selectQuery (MAX_REQUESTS_PER_CYCLE env) (lockedByOthers env) (table w)")
           (auto simp: claimed_def)
      from False cl have ne: "batch \<noteq> []" by simp
      obtain evs where "trace (cycleWorld AnimatedEmoji env w) =
             trace w @ [PoolConnect, Query Begin, Query Select, Console (Found (length batch))] @ evs
                     @ [Query Commit, Release]"
          and "sendsOf evs = callsFor AnimatedEmoji batch"
        using cycle_all_ok [OF _ _ sel ne, of AnimatedEmoji] h by blast
      then show ?thesis by (simp add: cl cf)
    qed
  qed
  have c: "emoji_type r = None \<or> emoji_type r = Some [] \<longrightarrow> emojiToSend r = DICE"
    by (auto simp: emojiToSend_def)
  from a b c emojiToSend_nonempty show ?thesis by blast
qed

theorem missing_variant_witness:
  "emoji_type (pendingRow 8 10 (Some [])) = Some []
   \<and> emoji_type (pendingRow 7 30 None) = None
   \<and> claimed quietEnv (table (idleWorld exampleTable))
       = [pendingRow 8 10 (Some []), pendingRow 10 20 (Some SLOT), pendingRow 7 30 None]
   \<and> sendsOf (trace (cycleWorld AnimatedEmoji quietEnv (idleWorld exampleTable)))
       = [(108, Some DICE), (110, Some SLOT), (107, Some DICE)]"
proof -
  have h: "connect_ok quietEnv \<and> (\<forall>q. query_ok quietEnv q)"
    by (simp add: quietEnv_def)
  have cl: "claimed quietEnv (table (idleWorld exampleTable))
       = [pendingRow 8 10 (Some []), pendingRow 10 20 (Some SLOT), pendingRow 7 30 None]"
    by (simp add: claimed_def selectQuery_def selectable_def quietEnv_def idleWorld_def
        exampleTable_def pendingRow_def completedRow_def)
  have t: "trace (idleWorld exampleTable) = []" by (simp add: idleWorld_def)
  have e: "emoji_type (pendingRow 8 10 (Some [])) = Some []" "emoji_type (pendingRow 7 30 None) = None"
          "emoji_type (pendingRow 10 20 (Some SLOT)) = Some SLOT"
          "chat_id (pendingRow 8 10 (Some [])) = 108" "chat_id (pendingRow 7 30 None) = 107"
          "chat_id (pendingRow 10 20 (Some SLOT)) = 110"
    by (simp_all add: pendingRow_def)
  have s: "emojiToSend (pendingRow 10 20 (Some SLOT)) = SLOT"
    by (simp add: emojiToSend_def pendingRow_def SLOT_def)
  note i8 = missing_variant_sends_default_die [of quietEnv "idleWorld exampleTable" "pendingRow 8 10 (Some [])"]
  note i7 = missing_variant_sends_default_die [of quietEnv "idleWorld exampleTable" "pendingRow 7 30 None"]
  have d8: "emojiToSend (pendingRow 8 10 (Some [])) = DICE" using i8 e by blast
  have d7: "emojiToSend (pendingRow 7 30 None) = DICE" using i7 e by blast
  have "sendsOf (trace (cycleWorld AnimatedEmoji quietEnv (idleWorld exampleTable)))
       = sendsOf (trace (idleWorld exampleTable))
         @ map (\<lambda>r. (chat_id r, Some (emojiToSend r))) (claimed quietEnv (table (idleWorld exampleTable)))"
    using i8 h by blast
  then have "sendsOf (trace (cycleWorld AnimatedEmoji quietEnv (idleWorld exampleTable)))
       = [(108, Some DICE), (110, Some SLOT), (107, Some DICE)]"
    unfolding cl t by (simp add: e s d8 d7)
  with e cl show ?thesis by blast
qed

section \<open>Recording an outcome\<close>

lemma updateQuery_count_pos:
  "0 < snd (updateQuery st rv t rid tbl) \<longleftrightarrow> (\<exists>r \<in> set tbl. request_id r = rid \<and> status r = Pending)"
  by (auto simp: updateQuery_def updateMatches_def filter_empty_conv)

lemma updateQuery_unchanged:
  "snd (updateQuery st rv t rid tbl) = 0 \<Longrightarrow> fst (updateQuery st rv t rid tbl) = tbl"
  by (auto simp: updateQuery_def filter_empty_conv intro: map_idI)

text \<open>
  C6. The \<open>UPDATE\<close> keeps the table's length, leaves every row alone that is not
  pending or has another id, and its \<open>rowCount\<close> is positive exactly when some row
  with the id was still pending; with \<open>rowCount = 0\<close> the table is unchanged. In the
  loop, when the \<open>UPDATE\<close> is answered and no row with the request's id is pending any
  more, the transaction's view stays as it is, the last thing logged is the warning, and
  the loop goes on with the remaining requests.
\<close>

theorem update_only_if_pending_else_warn:
  "length (fst (updateQuery st rv t rid tbl)) = length tbl
   \<and> (\<forall>i < length tbl. status (tbl ! i) \<noteq> Pending \<or> request_id (tbl ! i) \<noteq> rid
         \<longrightarrow> fst (updateQuery st rv t rid tbl) ! i = tbl ! i)
   \<and> (0 < snd (updateQuery st rv t rid tbl)
         \<longleftrightarrow> (\<exists>r \<in> set tbl. request_id r = rid \<and> status r = Pending))
   \<and> (snd (updateQuery st rv t rid tbl) = 0 \<longrightarrow> fst (updateQuery st rv t rid tbl) = tbl)
   \<and> (query_ok env (Update (request_id request))
        \<and> (\<forall>r \<in> set (txn w). request_id r = request_id request \<longrightarrow> status r \<noteq> Pending)
       \<longrightarrow> (\<exists>w1 evs. processRows v env (request # rest) w = processRows v env rest w1
              \<and> txn w1 = txn w \<and> table w1 = table w
              \<and> trace w1 = trace w @ evs @ [Query (Update (request_id request)),
                                              Console (UpdateWarn (request_id request))]))"
proof -
  have a: "length (fst (updateQuery st rv t rid tbl)) = length tbl"
    by (simp add: updateQuery_def)
  have b: "\<forall>i < length tbl. status (tbl ! i) \<noteq> Pending \<or> request_id (tbl ! i) \<noteq> rid
         \<longrightarrow> fst (updateQuery st rv t rid tbl) ! i = tbl ! i"
    by (auto simp: updateQuery_def updateMatches_def)
  have e: "query_ok env (Update (request_id request))
        \<and> (\<forall>r \<in> set (txn w). request_id r = request_id request \<longrightarrow> status r \<noteq> Pending)
       \<longrightarrow> (\<exists>w1 evs. processRows v env (request # rest) w = processRows v env rest w1
              \<and> txn w1 = txn w \<and> table w1 = table w
              \<and> trace w1 = trace w @ evs @ [Query (Update (request_id request)),
                                              Console (UpdateWarn (request_id request))])"
  proof
    let ?rid = "request_id request"
    let ?u = "updateQuery (fst (outcome v env ?rid)) (snd (outcome v env ?rid)) (NOW env) ?rid (txn w)"
    assume h: "query_ok env (Update ?rid)
        \<and> (\<forall>r \<in> set (txn w). request_id r = ?rid \<longrightarrow> status r \<noteq> Pending)"
    then have "\<not> 0 < snd ?u"
      unfolding updateQuery_count_pos by blast
    then have z: "snd ?u = 0" by simp
    then have same: "fst ?u = txn w" by (rule updateQuery_unchanged)
    obtain evs where evs: "trace (afterSend v env request w) = trace w @ evs"
      using afterSend_trace by blast
    have "processRows v env (request # rest) w = processRows v env rest (afterRow v env request w)"
      using h by (simp add: processRows_step del: processRows.simps(2))
    moreover have "txn (afterRow v env request w) = txn w"
      using same by (simp add: afterRow_def Let_def)
    moreover have "table (afterRow v env request w) = table w" by simp
    moreover have "trace (afterRow v env request w)
        = trace w @ evs @ [Query (Update ?rid), Console (UpdateWarn ?rid)]"
      using z evs by (simp add: afterRow_def Let_def)
    ultimately show "\<exists>w1 evs. processRows v env (request # rest) w = processRows v env rest w1
              \<and> txn w1 = txn w \<and> table w1 = table w
              \<and> trace w1 = trace w @ evs @ [Query (Update ?rid), Console (UpdateWarn ?rid)]"
      by blast
  qed
  from a b updateQuery_count_pos [of st rv t rid tbl] updateQuery_unchanged [of st rv t rid tbl] e
  show ?thesis by blast
qed

theorem update_only_if_pending_witness:
  "updateQuery Completed (Some 5) 1000 9 exampleTable = (exampleTable, 0)
   \<and> snd (updateQuery Completed (Some 5) 1000 7 exampleTable) = 1
   \<and> processRows AnimatedDice quietEnv [completedRow 9 5 3, pendingRow 7 30 None] midCycleWorld
      = Inr \<lparr>table = exampleTable,
             txn = [(pendingRow 7 30 None)\<lparr>status := Completed, roll_value := Some 4,
                                            processed_at := Some 1000\<rparr>,
                    pendingRow 8 10 (Some []), completedRow 9 5 3, pendingRow 10 20 (Some SLOT)],
             clientReleased = False,
             trace = [Console (Processing 9), Console (Sending 9), SendDice 109 None,
                      Console (SendOk 9 4), Query (Update 9), Console (UpdateWarn 9),
                      Console (Processing 7), Console (Sending 7), SendDice 107 None,
                      Console (SendOk 7 4), Query (Update 7), Console (Updated 7)]\<rparr>"
proof -
  note inst = update_only_if_pending_else_warn [of Completed "Some 5" 1000 9 exampleTable
      quietEnv "completedRow 9 5 3" midCycleWorld AnimatedDice "[pendingRow 7 30 None]"]
  have none: "\<not> (\<exists>r \<in> set exampleTable. request_id r = 9 \<and> status r = Pending)"
    by (simp add: exampleTable_def pendingRow_def completedRow_def)
  with inst have "snd (updateQuery Completed (Some 5) 1000 9 exampleTable) = 0" by simp
  with inst have "fst (updateQuery Completed (Some 5) 1000 9 exampleTable) = exampleTable" by blast
  with \<open>snd (updateQuery Completed (Some 5) 1000 9 exampleTable) = 0\<close>
  have u9: "updateQuery Completed (Some 5) 1000 9 exampleTable = (exampleTable, 0)"
    by (simp add: prod_eq_iff)
  have u7: "snd (updateQuery Completed (Some 5) 1000 7 exampleTable) = 1"
    by (simp add: updateQuery_def updateMatches_def exampleTable_def pendingRow_def completedRow_def)
  have run: "processRows AnimatedDice quietEnv [completedRow 9 5 3, pendingRow 7 30 None] midCycleWorld
      = Inr \<lparr>table = exampleTable,
             txn = [(pendingRow 7 30 None)\<lparr>status := Completed, roll_value := Some 4,
                                            processed_at := Some 1000\<rparr>,
                    pendingRow 8 10 (Some []), completedRow 9 5 3, pendingRow 10 20 (Some SLOT)],
             clientReleased = False,
             trace = [Console (Processing 9), Console (Sending 9), SendDice 109 None,
                      Console (SendOk 9 4), Query (Update 9), Console (UpdateWarn 9),
                      Console (Processing 7), Console (Sending 7), SendDice 107 None,
                      Console (SendOk 7 4), Query (Update 7), Console (Updated 7)]\<rparr>"
    by (simp add: cycle_defs midCycleWorld_def exampleTable_def)
  from u9 u7 run show ?thesis by blast
qed

section \<open>Timer and shutdown\<close>

lemma actionsOf_append [simp]: "actionsOf (xs @ ys) = actionsOf xs @ actionsOf ys"
  by (induction xs rule: actionsOf.induct) simp_all

lemma pemit_simps [simp]:
  "ptrace (pemit e p) = ptrace p @ [e]" "intervalArmed (pemit e p) = intervalArmed p"
  "exitCode (pemit e p) = exitCode p" "isShuttingDownHelper (pemit e p) = isShuttingDownHelper p"
  "botPolling (pemit e p) = botPolling p" "poolEnded (pemit e p) = poolEnded p"
  "dbPollingIntervalId (pemit e p) = dbPollingIntervalId p" "inFlight (pemit e p) = inFlight p"
  by (simp_all add: pemit_def)

text \<open>
  C1, as stated, fails: the interval callback is \<open>checkAndProcessRollRequests\<close> itself
  and reads no running flag. After a successful start and one tick a call is running;
  the next tick is not a no-op and leaves two calls running at once.
\<close>

theorem second_tick_overlaps_counterexample:
  "inFlight oneCycleRunning = 1
   \<and> timerTick oneCycleRunning \<noteq> oneCycleRunning
   \<and> inFlight (timerTick oneCycleRunning) = 2"
proof -
  have a: "inFlight oneCycleRunning = 1" and b: "inFlight (timerTick oneCycleRunning) = 2"
    by (simp_all add: oneCycleRunning_def timerTick_def startHelperBot_def initialProcess_def)
  from a b have "timerTick oneCycleRunning \<noteq> oneCycleRunning" by auto
  with a b show ?thesis by blast
qed

text \<open>
  C1, amended. While the interval is armed and the process has not exited, every tick
  starts one more call of the cycle, however many are still running, and changes
  nothing else; otherwise a tick does nothing. A first shutdown leaves a state in which
  ticks do nothing.
\<close>

theorem every_armed_tick_starts_a_cycle:
  "(intervalArmed p \<and> exitCode p = None
      \<longrightarrow> timerTick p = p\<lparr>inFlight := inFlight p + 1\<rparr> \<and> inFlight (timerTick p) = inFlight p + 1)
   \<and> (\<not> intervalArmed p \<or> exitCode p \<noteq> None \<longrightarrow> timerTick p = p)
   \<and> (\<not> isShuttingDownHelper p
      \<longrightarrow> timerTick (shutdownHelper stop_ok end_ok p) = shutdownHelper stop_ok end_ok p
        \<and> timerTick (shutdown stop_ok end_ok p) = shutdown stop_ok end_ok p)"
proof -
  have a: "intervalArmed p \<and> exitCode p = None
      \<longrightarrow> timerTick p = p\<lparr>inFlight := inFlight p + 1\<rparr> \<and> inFlight (timerTick p) = inFlight p + 1"
    by (simp add: timerTick_def)
  have b: "\<not> intervalArmed p \<or> exitCode p \<noteq> None \<longrightarrow> timerTick p = p"
    by (auto simp: timerTick_def)
  have x: "\<not> isShuttingDownHelper p \<longrightarrow> exitCode (shutdownHelper stop_ok end_ok p) \<noteq> None
      \<and> exitCode (shutdown stop_ok end_ok p) \<noteq> None"
    by (simp add: shutdownHelper_def shutdown_def process_exit_def Let_def)
  have c: "\<not> isShuttingDownHelper p
      \<longrightarrow> timerTick (shutdownHelper stop_ok end_ok p) = shutdownHelper stop_ok end_ok p
        \<and> timerTick (shutdown stop_ok end_ok p) = shutdown stop_ok end_ok p"
    using x by (simp add: timerTick_def)
  from a b c show ?thesis by blast
qed

theorem every_armed_tick_witness:
  "intervalArmed oneCycleRunning \<and> exitCode oneCycleRunning = None
   \<and> inFlight oneCycleRunning = 1
   \<and> inFlight (timerTick oneCycleRunning) = 2
   \<and> \<not> isShuttingDownHelper oneCycleRunning
   \<and> inFlight (timerTick (shutdownHelper True True oneCycleRunning)) = 1"
proof -
  have h: "intervalArmed oneCycleRunning \<and> exitCode oneCycleRunning = None"
    and n: "inFlight oneCycleRunning = 1" and s: "\<not> isShuttingDownHelper oneCycleRunning"
    by (simp_all add: oneCycleRunning_def timerTick_def startHelperBot_def initialProcess_def)
  note inst = every_armed_tick_starts_a_cycle [of oneCycleRunning True True]
  from inst h have "inFlight (timerTick oneCycleRunning) = inFlight oneCycleRunning + 1" by blast
  with n have two: "inFlight (timerTick oneCycleRunning) = 2" by simp
  from inst s have "timerTick (shutdownHelper True True oneCycleRunning)
      = shutdownHelper True True oneCycleRunning" by blast
  moreover have "inFlight (shutdownHelper True True oneCycleRunning) = 1"
    using s n
    by (simp add: shutdownHelper_def process_exit_def closePool_def stopTelegram_def
        clearInterval_def Let_def)
  ultimately have "inFlight (timerTick (shutdownHelper True True oneCycleRunning)) = 1" by simp
  with h n two s show ?thesis by blast
qed

lemma stopTelegram_actions:
  "actionsOf (ptrace (stopTelegram stop_ok p))
     = actionsOf (ptrace p) @ (if botPolling p then [StopPolling] else [])"
  by (simp add: stopTelegram_def)

lemma stopTelegram_frame [simp]:
  "intervalArmed (stopTelegram stop_ok p) = intervalArmed p"
  "exitCode (stopTelegram stop_ok p) = exitCode p"
  "isShuttingDownHelper (stopTelegram stop_ok p) = isShuttingDownHelper p"
  "poolEnded (stopTelegram stop_ok p) = poolEnded p"
  by (simp_all add: stopTelegram_def)

lemma closePool_actions:
  "actionsOf (ptrace (closePool end_ok p)) = actionsOf (ptrace p) @ [PoolEnd]"
  by (simp add: closePool_def)

lemma closePool_frame [simp]:
  "intervalArmed (closePool end_ok p) = intervalArmed p"
  "exitCode (closePool end_ok p) = exitCode p"
  "isShuttingDownHelper (closePool end_ok p) = isShuttingDownHelper p"
  "botPolling (closePool end_ok p) = botPolling p"
  by (simp_all add: closePool_def)

lemma shutdownHelper_first:
  assumes "\<not> isShuttingDownHelper p"
  shows "actionsOf (ptrace (shutdownHelper stop_ok end_ok p))
           = actionsOf (ptrace p)
             @ (if dbPollingIntervalId p \<noteq> None then [ClearInterval] else [])
             @ (if botPolling p then [StopPolling] else []) @ [PoolEnd, Exit 0]"
    and "isShuttingDownHelper (shutdownHelper stop_ok end_ok p)"
    and "exitCode (shutdownHelper stop_ok end_ok p) = Some 0"
    and "dbPollingIntervalId p \<noteq> None \<longrightarrow> \<not> intervalArmed (shutdownHelper stop_ok end_ok p)"
  using assms
  by (simp_all add: shutdownHelper_def Let_def process_exit_def closePool_actions
      stopTelegram_actions clearInterval_def)

lemma shutdown_first:
  assumes "\<not> isShuttingDownHelper p"
  shows "actionsOf (ptrace (shutdown stop_ok end_ok p))
           = actionsOf (ptrace p)
             @ (if dbPollingIntervalId p \<noteq> None then [ClearInterval] else [])
             @ (if botPolling p then [StopPolling] else []) @ [PoolEnd, Exit 0]"
    and "isShuttingDownHelper (shutdown stop_ok end_ok p)"
    and "exitCode (shutdown stop_ok end_ok p) = Some 0"
    and "dbPollingIntervalId p \<noteq> None \<longrightarrow> \<not> intervalArmed (shutdown stop_ok end_ok p)"
  using assms
  by (simp_all add: shutdown_def Let_def process_exit_def closePool_actions
      stopTelegram_actions clearInterval_def)

lemma shutdown_again:
  assumes "isShuttingDownHelper p"
  shows "shutdownHelper stop_ok end_ok p = pemit (Console AlreadyShuttingDown) p"
    and "shutdown stop_ok end_ok p = pemit (Console AlreadyShuttingDown) p"
    and "actionsOf (ptrace (shutdownHelper stop_ok end_ok p)) = actionsOf (ptrace p)"
    and "actionsOf (ptrace (shutdown stop_ok end_ok p)) = actionsOf (ptrace p)"
  using assms by (simp_all add: shutdownHelper_def shutdown_def)

text \<open>
  C8. Both shutdown functions: when shutdown is already in progress a further signal
  only logs; it stops no timer, no listener, closes no pool, does not exit, and leaves
  the state as it is. A first signal clears the interval (when one was set), stops the
  bot's polling (when it polls), ends the pool and exits with code 0, in this order, and
  sets the flag; so a second call after a first adds no further action.
\<close>

theorem shutdown_is_idempotent:
  "(isShuttingDownHelper p \<longrightarrow>
      shutdownHelper stop_ok end_ok p = pemit (Console AlreadyShuttingDown) p
      \<and> shutdown stop_ok end_ok p = pemit (Console AlreadyShuttingDown) p
      \<and> actionsOf (ptrace (shutdownHelper stop_ok end_ok p)) = actionsOf (ptrace p)
      \<and> actionsOf (ptrace (shutdown stop_ok end_ok p)) = actionsOf (ptrace p))
   \<and> (\<not> isShuttingDownHelper p \<longrightarrow>
      actionsOf (ptrace (shutdownHelper stop_ok end_ok p))
        = actionsOf (ptrace p)
          @ (if dbPollingIntervalId p \<noteq> None then [ClearInterval] else [])
          @ (if botPolling p then [StopPolling] else []) @ [PoolEnd, Exit 0]
      \<and> actionsOf (ptrace (shutdown stop_ok end_ok p))
        = actionsOf (ptrace (shutdownHelper stop_ok end_ok p))
      \<and> exitCode (shutdownHelper stop_ok end_ok p) = Some 0
      \<and> exitCode (shutdown stop_ok end_ok p) = Some 0
      \<and> (dbPollingIntervalId p \<noteq> None \<longrightarrow>
            \<not> intervalArmed (shutdownHelper stop_ok end_ok p)
            \<and> \<not> intervalArmed (shutdown stop_ok end_ok p)))
   \<and> actionsOf (ptrace (shutdownHelper stop_ok' end_ok' (shutdownHelper stop_ok end_ok p)))
        = actionsOf (ptrace (shutdownHelper stop_ok end_ok p))
   \<and> actionsOf (ptrace (shutdown stop_ok' end_ok' (shutdown stop_ok end_ok p)))
        = actionsOf (ptrace (shutdown stop_ok end_ok p))"
proof -
  have again: "isShuttingDownHelper p \<longrightarrow>
      shutdownHelper stop_ok end_ok p = pemit (Console AlreadyShuttingDown) p
      \<and> shutdown stop_ok end_ok p = pemit (Console AlreadyShuttingDown) p
      \<and> actionsOf (ptrace (shutdownHelper stop_ok end_ok p)) = actionsOf (ptrace p)
      \<and> actionsOf (ptrace (shutdown stop_ok end_ok p)) = actionsOf (ptrace p)"
    using shutdown_again [of p stop_ok end_ok] by blast
  have first: "\<not> isShuttingDownHelper p \<longrightarrow>
      actionsOf (ptrace (shutdownHelper stop_ok end_ok p))
        = actionsOf (ptrace p)
          @ (if dbPollingIntervalId p \<noteq> None then [ClearInterval] else [])
          @ (if botPolling p then [StopPolling] else []) @ [PoolEnd, Exit 0]
      \<and> actionsOf (ptrace (shutdown stop_ok end_ok p))
        = actionsOf (ptrace (shutdownHelper stop_ok end_ok p))
      \<and> exitCode (shutdownHelper stop_ok end_ok p) = Some 0
      \<and> exitCode (shutdown stop_ok end_ok p) = Some 0
      \<and> (dbPollingIntervalId p \<noteq> None \<longrightarrow>
            \<not> intervalArmed (shutdownHelper stop_ok end_ok p)
            \<and> \<not> intervalArmed (shutdown stop_ok end_ok p))"
    using shutdownHelper_first [of p stop_ok end_ok] shutdown_first [of p stop_ok end_ok]
    by simp
  have flagH: "isShuttingDownHelper (shutdownHelper stop_ok end_ok p)"
    using shutdownHelper_first(2) [of p stop_ok end_ok]
    by (cases "isShuttingDownHelper p") (simp_all add: shutdownHelper_def)
  have flagS: "isShuttingDownHelper (shutdown stop_ok end_ok p)"
    using shutdown_first(2) [of p stop_ok end_ok]
    by (cases "isShuttingDownHelper p") (simp_all add: shutdown_def)
  have twiceH: "actionsOf (ptrace (shutdownHelper stop_ok' end_ok' (shutdownHelper stop_ok end_ok p)))
        = actionsOf (ptrace (shutdownHelper stop_ok end_ok p))"
    using shutdown_again(3) [OF flagH] .
  have twiceS: "actionsOf (ptrace (shutdown stop_ok' end_ok' (shutdown stop_ok end_ok p)))
        = actionsOf (ptrace (shutdown stop_ok end_ok p))"
    using shutdown_again(4) [OF flagS] .
  from again first twiceH twiceS show ?thesis by blast
qed

theorem shutdown_witness:
  "\<not> isShuttingDownHelper oneCycleRunning
   \<and> actionsOf (ptrace (shutdownHelper True True oneCycleRunning))
       = [SetInterval, ClearInterval, StopPolling, PoolEnd, Exit 0]
   \<and> isShuttingDownHelper (shutdownHelper True True oneCycleRunning)
   \<and> actionsOf (ptrace (shutdownHelper True True (shutdownHelper True True oneCycleRunning)))
       = [SetInterval, ClearInterval, StopPolling, PoolEnd, Exit 0]
   \<and> actionsOf (ptrace (shutdown False False (shutdown True True oneCycleRunning)))
       = [SetInterval, ClearInterval, StopPolling, PoolEnd, Exit 0]
   \<and> exitCode (shutdownHelper True True oneCycleRunning) = Some 0"
proof -
  have s: "\<not> isShuttingDownHelper oneCycleRunning" "dbPollingIntervalId oneCycleRunning \<noteq> None"
      "botPolling oneCycleRunning" "actionsOf (ptrace oneCycleRunning) = [SetInterval]"
    by (simp_all add: oneCycleRunning_def timerTick_def startHelperBot_def initialProcess_def)
  have f: "isShuttingDownHelper (shutdownHelper True True oneCycleRunning)"
    using s(1) by (rule shutdownHelper_first(2))
  note i1 = shutdown_is_idempotent [of oneCycleRunning True True True True]
  note i2 = shutdown_is_idempotent [of oneCycleRunning True True False False]
  from i1 s have a: "actionsOf (ptrace (shutdownHelper True True oneCycleRunning))
       = [SetInterval, ClearInterval, StopPolling, PoolEnd, Exit 0]" by simp
  from i1 s have e: "exitCode (shutdownHelper True True oneCycleRunning) = Some 0" by blast
  from i1 have "actionsOf (ptrace (shutdownHelper True True (shutdownHelper True True oneCycleRunning)))
       = actionsOf (ptrace (shutdownHelper True True oneCycleRunning))" by blast
  with a have b: "actionsOf (ptrace (shutdownHelper True True (shutdownHelper True True oneCycleRunning)))
       = [SetInterval, ClearInterval, StopPolling, PoolEnd, Exit 0]" by simp
  from i1 s have "actionsOf (ptrace (shutdown True True oneCycleRunning))
       = actionsOf (ptrace (shutdownHelper True True oneCycleRunning))" by blast
  moreover from i2 have "actionsOf (ptrace (shutdown False False (shutdown True True oneCycleRunning)))
       = actionsOf (ptrace (shutdown True True oneCycleRunning))" by blast
  ultimately have c: "actionsOf (ptrace (shutdown False False (shutdown True True oneCycleRunning)))
       = [SetInterval, ClearInterval, StopPolling, PoolEnd, Exit 0]" using a by simp
  from s(1) a f b c e show ?thesis by blast
qed

end
